theory Spec2Isabelle
  imports Complex_Main "HOL-Library.AList" "HOL-Library.Char_ord" "HOL-Library.List_Lexorder"
begin

section \<open>The drift-semantic similarity pipeline\<close>

text \<open>
  A shallow embedding of the Python package \<^verbatim>\<open>drift_semantic\<close>: the feature stages
  (\<^verbatim>\<open>fingerprint.py\<close>, \<^verbatim>\<open>typesig.py\<close>, \<^verbatim>\<open>callgraph.py\<close>, \<^verbatim>\<open>depcontext.py\<close>), the
  pairwise scoring of \<^verbatim>\<open>score.py\<close> with its helpers in \<^verbatim>\<open>vectors.py\<close> and
  \<^verbatim>\<open>similarity.py\<close>, the clustering of \<^verbatim>\<open>cluster.py\<close> and the artifact writer of
  \<^verbatim>\<open>io_utils.py\<close>.

  Conventions of the embedding.
  \<^item> A Python \<^verbatim>\<open>float\<close> is a \<^typ>\<open>real\<close>: arithmetic is exact, the rounding of IEEE
    doubles is not modelled. A Python \<^verbatim>\<open>int\<close> is an \<^typ>\<open>int\<close>, a length is a \<^typ>\<open>nat\<close>.
  \<^item> A Python \<^verbatim>\<open>dict\<close> is an association list in insertion order; \<^verbatim>\<open>d[k] = v\<close> is
    \<^const>\<open>AList.update\<close> (the entry keeps its place, a new key goes last), \<^verbatim>\<open>d.get(k)\<close>
    is \<^const>\<open>map_of\<close>, \<^verbatim>\<open>del d[k]\<close> is \<^const>\<open>AList.delete\<close>. A list that stands for a
    dict has distinct keys; every dict the model builds has.
  \<^item> A Python \<^verbatim>\<open>set\<close> is a HOL set; a loop over a set whose result does not depend on
    the order of iteration is written as an image or a comprehension.
  \<^item> A field read with \<^verbatim>\<open>unit.get(key, default)\<close> is an \<^typ>\<open>'a option\<close> when the
    default differs between readers, and carries the default itself otherwise.
  \<^item> \<^verbatim>\<open>hashlib.sha256(json.dumps(obj, sort_keys=True)).hexdigest()\<close> is library code:
    the digest function is a parameter \<open>H\<close> of every stage that hashes.
\<close>

subsection \<open>Python helpers\<close>

text \<open>\<^verbatim>\<open>sum(d.values())\<close> over a dict of floats.\<close>

definition sum_values :: "('k \<times> real) list \<Rightarrow> real" where
  "sum_values d = sum_list (map snd d)"

text \<open>
  \<^verbatim>\<open>round(x, ndigits)\<close>: the nearest multiple of \<open>10 ^ -ndigits\<close>, a tie going to the
  even neighbour.
\<close>

definition py_round :: "real \<Rightarrow> nat \<Rightarrow> real" where
  "py_round x ndigits =
     (let s = 10 ^ ndigits;
          y = x * s;
          f = \<lfloor>y\<rfloor>;
          d = y - of_int f
      in of_int (if d < 1 / 2 then f
                 else if 1 / 2 < d then f + 1
                 else if even f then f else f + 1) / s)"

text \<open>Errors a stage can raise.\<close>

datatype py_error = ValueError

text \<open>JSON values, as far as the pipeline hashes them or carries them through.\<close>

datatype json =
    JNull
  | JBool bool
  | JInt int
  | JStr string
  | JArr "json list"
  | JObj "(string \<times> json) list"

text \<open>\<^verbatim>\<open>"/" in fp\<close>, \<^verbatim>\<open>fp.split("/")\<close>, \<^verbatim>\<open>fp.rsplit("/", 1)[0]\<close> and \<^verbatim>\<open>parts.index(x)\<close>.\<close>

definition has_slash :: "string \<Rightarrow> bool" where
  "has_slash fp = (CHR ''/'' \<in> set fp)"

fun split_on :: "char \<Rightarrow> string \<Rightarrow> string list" where
  "split_on c [] = [[]]"
| "split_on c (x # xs) =
     (if x = c then [] # split_on c xs
      else (case split_on c xs of
              [] \<Rightarrow> [[x]]
            | p # ps \<Rightarrow> (x # p) # ps))"

definition rsplit1_head :: "char \<Rightarrow> string \<Rightarrow> string" where
  "rsplit1_head c fp =
     (if c \<in> set fp then rev (tl (dropWhile (\<lambda>x. x \<noteq> c) (rev fp))) else fp)"

fun index_of :: "'a \<Rightarrow> 'a list \<Rightarrow> nat" where
  "index_of x [] = 0"
| "index_of x (y # ys) = (if x = y then 0 else Suc (index_of x ys))"

text \<open>\<^verbatim>\<open>s.lower()\<close>, \<^verbatim>\<open>s.strip()\<close>, \<^verbatim>\<open>p in s\<close> and \<^verbatim>\<open>s.startswith(p)\<close>, on ASCII text.\<close>

definition lower_char :: "char \<Rightarrow> char" where
  "lower_char c =
     (if CHR ''A'' \<le> c \<and> c \<le> CHR ''Z'' then char_of (of_char c + (32::nat)) else c)"

definition lower :: "string \<Rightarrow> string" where
  "lower s = map lower_char s"

definition is_space :: "char \<Rightarrow> bool" where
  "is_space c = (c \<in> {CHR '' '', CHR 0x09, CHR 0x0A, CHR 0x0B, CHR 0x0C, CHR 0x0D})"

definition strip :: "string \<Rightarrow> string" where
  "strip s = rev (dropWhile is_space (rev (dropWhile is_space s)))"

definition startswith :: "string \<Rightarrow> string \<Rightarrow> bool" where
  "startswith s p = (take (length p) s = p)"

fun contains :: "string \<Rightarrow> string \<Rightarrow> bool" where
  "contains [] p = (p = [])"
| "contains (x # xs) p = (startswith (x # xs) p \<or> contains xs p)"

subsection \<open>The code-unit inventory\<close>

text \<open>
  The fields of a code unit that the pipeline reads. A JSX node carries its tag and its
  children; a child that is not a node (a text child) is \<open>ChildOther\<close>. An entry of a
  list that the code reads with \<^verbatim>\<open>x.get(...) if isinstance(x, dict) else str(x)\<close> is
  either a record or \<open>...Other s\<close>, \<open>s\<close> being \<^verbatim>\<open>str(x)\<close>. A record of
  \<^verbatim>\<open>storeAccess\<close>, \<^verbatim>\<open>dataSourceAccess\<close> or \<^verbatim>\<open>callees\<close> is taken to carry its \<^verbatim>\<open>name\<close> or
  \<^verbatim>\<open>target\<close>, a string, as the extractor writes it: the default of
  \<^verbatim>\<open>x.get("name", x)\<close>, the record itself, is outside the model.
\<close>

datatype param = Param (param_name: "string option") (param_type: "string option")

datatype jsx = Jsx (tag: string) (children: "jsx_child list")
  and jsx_child = ChildNode jsx | ChildOther json

datatype hook_call =
    HookRec (hook_name: "string option") (hook_count: "int option")
  | HookStr string
  | HookOther

datatype import_entry = ImportRec (import_source: "string option") | ImportOther string

datatype access_entry = AccessRec (access_name: string) | AccessOther string

datatype callee = CalleeRec (callee_target: string) | CalleeOther string

datatype consumer =
    ConsumerRec (consumer_id: "string option") (consumer_unitId: "string option")
                (consumer_filePath: "string option") (consumer_file: "string option")
  | ConsumerOther string

datatype cooc_entry =
    CoEntry (co_unitId: "string option") (co_id: "string option")
            (co_ratio: "real option") (co_count: "real option")
  | CoEntryOther

datatype cooc_val =
    CoNum real
  | CoRec (cv_ratio: "real option") (cv_count: "real option")
  | CoValOther

datatype cooccurrences =
    CoList "cooc_entry list"
  | CoDict "(string \<times> cooc_val) list"
  | CoOther

datatype consumer_kinds = KindsDict "(string \<times> int) list" | KindsList "string list"

datatype consumer_dirs = DirsList "string list" | DirsDict "(string \<times> json) list" | DirsOther

record unit =
  unit_id :: string
  kind :: "string option"
  filePath :: string
  parameters :: "param list option"
  props :: "param list option"
  returnType :: "string option"
  jsxTree :: "jsx option"
  hookCalls :: "hook_call list"
  unit_imports :: "import_entry list"
  storeAccess :: "access_entry list"
  dataSourceAccess :: "access_entry list"
  behaviorMarkers :: "string \<Rightarrow> bool"
  callees :: "callee list"
  calleeSequence :: "(string \<times> string list) list"
  consumers :: "consumer list"
  coOccurrences :: cooccurrences
  consumerKinds :: consumer_kinds
  consumerDirectories :: consumer_dirs
  consumerCount :: "int option"

text \<open>
  \<open>unit_id\<close> is \<^verbatim>\<open>unit.get("id", "")\<close> and \<open>filePath\<close> is \<^verbatim>\<open>unit.get("filePath", "")\<close>;
  \<open>unit_imports\<close> is the field \<^verbatim>\<open>imports\<close>; \<open>behaviorMarkers u key\<close> is the truth of
  \<^verbatim>\<open>unit.get(key, False)\<close>. An absent list is the empty list, an absent
  \<^verbatim>\<open>coOccurrences\<close> or \<^verbatim>\<open>consumerKinds\<close> the empty dict, an absent \<^verbatim>\<open>consumerDirectories\<close>
  the empty list, as the defaults of the code have it.
\<close>

definition get_kind :: "unit \<Rightarrow> string" where
  "get_kind u = (case kind u of None \<Rightarrow> [] | Some k \<Rightarrow> k)"

subsection \<open>\<^verbatim>\<open>vectors.py\<close>\<close>

type_synonym 'k sparse = "('k \<times> real) list"

fun dot_loop :: "'k sparse \<Rightarrow> 'k sparse \<Rightarrow> real \<Rightarrow> real" where
  "dot_loop [] b acc = acc"
| "dot_loop ((k, v) # a) b acc =
     dot_loop a b (case map_of b k of None \<Rightarrow> acc | Some w \<Rightarrow> acc + v * w)"

definition dot :: "'k sparse \<Rightarrow> 'k sparse \<Rightarrow> real" where
  "dot a b = (if length b < length a then dot_loop b a 0 else dot_loop a b 0)"

definition magnitude :: "'k sparse \<Rightarrow> real" where
  "magnitude v = (if v = [] then 0 else sqrt (sum_list (map (\<lambda>(k, x). x * x) v)))"

definition cosine_sim :: "'k sparse \<Rightarrow> 'k sparse \<Rightarrow> real" where
  "cosine_sim a b =
     (if a = [] \<or> b = [] then 0
      else (let d = dot a b;
                ma = magnitude a;
                mb = magnitude b
            in if ma = 0 \<or> mb = 0 then 0
               else (let sim = d / (ma * mb) in max 0 (min 1 sim))))"

definition jaccard_sim :: "'a set \<Rightarrow> 'a set \<Rightarrow> real" where
  "jaccard_sim a b =
     (if a = {} \<and> b = {} then 0
      else (let n_inter = card (a \<inter> b);
                n_union = card (a \<union> b)
            in if n_union = 0 then 0 else real n_inter / real n_union))"

subsection \<open>\<^verbatim>\<open>similarity.py\<close>\<close>

definition normalized_hamming :: "int list \<Rightarrow> int list \<Rightarrow> real" where
  "normalized_hamming a b =
     (if a = [] \<and> b = [] then 1
      else if length a \<noteq> length b
      then (let min_len = min (length a) (length b);
                max_len = max (length a) (length b);
                mismatches = (max_len - min_len)
                   + length (filter (\<lambda>i. a ! i \<noteq> b ! i) [0..<min_len])
            in 1 - real mismatches / real max_len)
      else (let distance = length (filter (\<lambda>(x, y). x \<noteq> y) (zip a b))
            in 1 - real distance / real (length a)))"

primrec count_tree_nodes :: "jsx \<Rightarrow> nat" and count_child_nodes :: "jsx_child \<Rightarrow> nat" where
  "count_tree_nodes (Jsx t cs) = 1 + sum_list (map count_child_nodes cs)"
| "count_child_nodes (ChildNode n) = count_tree_nodes n"
| "count_child_nodes (ChildOther j) = 0"

text \<open>\<^verbatim>\<open>[c for c in tree.get("children", []) if isinstance(c, dict)]\<close>\<close>

fun dict_children :: "jsx_child list \<Rightarrow> jsx list" where
  "dict_children [] = []"
| "dict_children (ChildNode n # cs) = n # dict_children cs"
| "dict_children (ChildOther j # cs) = dict_children cs"

function count_matching_nodes :: "jsx \<Rightarrow> jsx \<Rightarrow> nat" where
  "count_matching_nodes (Jsx tag_a cs_a) (Jsx tag_b cs_b) =
     (if tag_a = tag_b then 1 else 0)
     + sum_list (map (\<lambda>(ca, cb). count_matching_nodes ca cb)
                     (zip (dict_children cs_a) (dict_children cs_b)))"
  by pat_completeness auto
termination
proof (relation "measure (\<lambda>(a, b). size a)")
  have smaller: "n \<in> set (dict_children cs) \<Longrightarrow> size n < Suc (size_list size cs)" for n cs
    by (induction cs rule: dict_children.induct) auto
  fix tag_a tag_b :: string and cs_a cs_b :: "jsx_child list" and z :: "jsx \<times> jsx" and x y :: jsx
  assume "z \<in> set (zip (dict_children cs_a) (dict_children cs_b))" and "(x, y) = z"
  then have "x \<in> set (dict_children cs_a)"
    by (auto dest: set_zip_leftD)
  then show "((x, y), (Jsx tag_a cs_a, Jsx tag_b cs_b)) \<in> measure (\<lambda>(a, b). size a)"
    using smaller [of x cs_a] by simp
qed simp

definition tree_edit_distance_normalized :: "jsx option \<Rightarrow> jsx option \<Rightarrow> real" where
  "tree_edit_distance_normalized tree_a tree_b =
     (if tree_a = None \<and> tree_b = None then 0
      else (let total_a = (case tree_a of None \<Rightarrow> 0 | Some t \<Rightarrow> count_tree_nodes t);
                total_b = (case tree_b of None \<Rightarrow> 0 | Some t \<Rightarrow> count_tree_nodes t);
                total_n = total_a + total_b
            in if total_n = 0 then 0
               else (let matching = (case (tree_a, tree_b) of
                                        (Some a, Some b) \<Rightarrow> count_matching_nodes a b
                                      | _ \<Rightarrow> 0)
                     in min 1 ((2 * real matching) / real total_n))))"

subsection \<open>\<^verbatim>\<open>fingerprint.py\<close>\<close>

text \<open>
  \<^verbatim>\<open>_PASCAL_RE = ^[A-Z][a-zA-Z0-9]+$\<close> under \<^verbatim>\<open>re.match\<close>: an upper-case letter,
  then one or more letters or digits; \<^verbatim>\<open>$\<close> also matches before one final newline.
\<close>

definition is_upper :: "char \<Rightarrow> bool" where
  "is_upper c = (CHR ''A'' \<le> c \<and> c \<le> CHR ''Z'')"

definition is_alnum :: "char \<Rightarrow> bool" where
  "is_alnum c = (is_upper c \<or> (CHR ''a'' \<le> c \<and> c \<le> CHR ''z'') \<or> (CHR ''0'' \<le> c \<and> c \<le> CHR ''9''))"

definition pascal_match :: "string \<Rightarrow> bool" where
  "pascal_match t =
     (case t of
        [] \<Rightarrow> False
      | c # rest \<Rightarrow>
          is_upper c \<and>
          (let body = (if rest \<noteq> [] \<and> last rest = CHR 0x0A then butlast rest else rest)
           in body \<noteq> [] \<and> list_all is_alnum body))"

primrec wildcard_custom_tags :: "jsx \<Rightarrow> jsx" and wildcard_child :: "jsx_child \<Rightarrow> jsx_child" where
  "wildcard_custom_tags (Jsx t cs) =
     Jsx (if pascal_match t then ''<C>'' else t) (map wildcard_child cs)"
| "wildcard_child (ChildNode n) = ChildNode (wildcard_custom_tags n)"
| "wildcard_child (ChildOther j) = ChildOther j"

text \<open>The JSON value of a tree, as \<^verbatim>\<open>json.dumps\<close> receives it.\<close>

primrec jsx_json :: "jsx \<Rightarrow> json" and jsx_child_json :: "jsx_child \<Rightarrow> json" where
  "jsx_json (Jsx t cs) = JObj [(''children'', JArr (map jsx_child_json cs)), (''tag'', JStr t)]"
| "jsx_child_json (ChildNode n) = jsx_json n"
| "jsx_child_json (ChildOther j) = j"

record jsx_hash_rec =
  exact :: "string option"
  fuzzy :: "string option"

definition jsx_hash :: "(json \<Rightarrow> string) \<Rightarrow> unit \<Rightarrow> jsx_hash_rec" where
  "jsx_hash H u =
     (case jsxTree u of
        None \<Rightarrow> \<lparr>exact = None, fuzzy = None\<rparr>
      | Some jsx_tree \<Rightarrow>
          \<lparr>exact = Some (H (jsx_json jsx_tree)),
           fuzzy = Some (H (jsx_json (wildcard_custom_tags jsx_tree)))\<rparr>)"

definition HOOK_ORDER :: "string list" where
  "HOOK_ORDER =
     [''useState'', ''useEffect'', ''useCallback'', ''useMemo'', ''useRef'', ''useContext'',
      ''useReducer'', ''useLayoutEffect'', ''useDeferredValue'', ''useTransition'']"

definition get_or :: "('k \<times> 'v) list \<Rightarrow> 'k \<Rightarrow> 'v \<Rightarrow> 'v" where
  "get_or d k dflt = (case map_of d k of None \<Rightarrow> dflt | Some v \<Rightarrow> v)"

fun hook_counts :: "hook_call list \<Rightarrow> (string \<times> int) list \<Rightarrow> (string \<times> int) list" where
  "hook_counts [] counts = counts"
| "hook_counts (HookRec nm cnt # es) counts =
     (let name = (case nm of None \<Rightarrow> [] | Some n \<Rightarrow> n)
      in hook_counts es
           (AList.update name (get_or counts name 0 + (case cnt of None \<Rightarrow> 1 | Some c \<Rightarrow> c)) counts))"
| "hook_counts (HookStr e # es) counts =
     hook_counts es (AList.update e (get_or counts e 0 + 1) counts)"
| "hook_counts (HookOther # es) counts = hook_counts es counts"

definition hook_profile :: "unit \<Rightarrow> int list" where
  "hook_profile u =
     (let counts = hook_counts (hookCalls u) [] in map (\<lambda>hook. get_or counts hook 0) HOOK_ORDER)"

definition import_src :: "import_entry \<Rightarrow> string" where
  "import_src imp =
     (case imp of ImportRec s \<Rightarrow> (case s of None \<Rightarrow> [] | Some x \<Rightarrow> x) | ImportOther x \<Rightarrow> x)"

text \<open>
  \<^verbatim>\<open>_compute_idf\<close>. The sources of a unit are collected in a set and then counted; the
  model counts them in the order of their first occurrence (the order only decides the
  order of the keys of the result, which no reader depends on).
\<close>

fun count_docs :: "string list \<Rightarrow> (string \<times> nat) list \<Rightarrow> (string \<times> nat) list" where
  "count_docs [] counts = counts"
| "count_docs (src # srcs) counts =
     count_docs srcs (AList.update src (get_or counts src 0 + 1) counts)"

fun source_doc_counts :: "unit list \<Rightarrow> (string \<times> nat) list \<Rightarrow> (string \<times> nat) list" where
  "source_doc_counts [] counts = counts"
| "source_doc_counts (u # us) counts =
     source_doc_counts us
       (count_docs (remdups (filter (\<lambda>src. src \<noteq> []) (map import_src (unit_imports u)))) counts)"

definition idf_of_counts :: "nat \<Rightarrow> (string \<times> nat) list \<Rightarrow> string sparse" where
  "idf_of_counts doc_count counts = map (\<lambda>(src, n). (src, ln (real doc_count / real n))) counts"

definition compute_idf :: "unit list \<Rightarrow> string sparse" where
  "compute_idf units =
     (let doc_count = length units
      in if doc_count = 0 then [] else idf_of_counts doc_count (source_doc_counts units []))"

fun import_constellation_loop :: "import_entry list \<Rightarrow> string sparse \<Rightarrow> string sparse \<Rightarrow> string sparse" where
  "import_constellation_loop [] idf vec = vec"
| "import_constellation_loop (imp # imps) idf vec =
     (let src = import_src imp
      in import_constellation_loop imps idf
           (case map_of idf src of
              None \<Rightarrow> vec
            | Some w \<Rightarrow> if src \<noteq> [] then AList.update src (get_or vec src 0 + w) vec else vec))"

definition import_constellation :: "unit \<Rightarrow> string sparse \<Rightarrow> string sparse" where
  "import_constellation u idf = import_constellation_loop (unit_imports u) idf []"

definition BEHAVIOR_KEYS :: "string list" where
  "BEHAVIOR_KEYS =
     [''isAsync'', ''hasErrorHandling'', ''hasLoadingState'', ''hasEmptyState'',
      ''hasRetryLogic'', ''rendersIteration'', ''rendersConditional'', ''sideEffects'']"

definition behavior_flags :: "unit \<Rightarrow> int list" where
  "behavior_flags u = map (\<lambda>key. if behaviorMarkers u key then 1 else 0) BEHAVIOR_KEYS"

definition access_str :: "access_entry \<Rightarrow> string" where
  "access_str a = (case a of AccessRec n \<Rightarrow> n | AccessOther x \<Rightarrow> x)"

fun access_loop :: "string \<Rightarrow> access_entry list \<Rightarrow> string sparse \<Rightarrow> string sparse" where
  "access_loop prefix [] vec = vec"
| "access_loop prefix (a # as) vec =
     (let name = access_str a
      in access_loop prefix as
           (if name \<noteq> [] then AList.update (prefix @ name) (get_or vec (prefix @ name) 0 + 1) vec
            else vec))"

definition data_access_pattern :: "unit \<Rightarrow> string sparse" where
  "data_access_pattern u =
     access_loop ''ds:'' (dataSourceAccess u) (access_loop ''store:'' (storeAccess u) [])"

record fingerprint =
  jsxHash :: jsx_hash_rec
  hookProfile :: "int list"
  importConstellation :: "string sparse"
  behaviorFlags :: "int list"
  dataAccessPattern :: "string sparse"

fun fingerprints_loop ::
  "(json \<Rightarrow> string) \<Rightarrow> string sparse \<Rightarrow> unit list \<Rightarrow> (string \<times> fingerprint) list
     \<Rightarrow> (string \<times> fingerprint) list" where
  "fingerprints_loop H idf [] result = result"
| "fingerprints_loop H idf (u # us) result =
     (if unit_id u = [] then fingerprints_loop H idf us result
      else fingerprints_loop H idf us
             (AList.update (unit_id u)
                \<lparr>jsxHash = jsx_hash H u,
                 hookProfile = hook_profile u,
                 importConstellation = import_constellation u idf,
                 behaviorFlags = behavior_flags u,
                 dataAccessPattern = data_access_pattern u\<rparr> result))"

definition compute_fingerprints :: "(json \<Rightarrow> string) \<Rightarrow> unit list \<Rightarrow> (string \<times> fingerprint) list" where
  "compute_fingerprints H units = fingerprints_loop H (compute_idf units) units []"

subsection \<open>\<^verbatim>\<open>typesig.py\<close>\<close>

record type_flags =
  has_void :: bool
  has_function :: bool
  has_object :: bool
  has_array :: bool

definition classify_type :: "string \<Rightarrow> type_flags" where
  "classify_type t =
     (let lower_t = strip (lower t)
      in \<lparr>has_void = (lower_t \<in> {''void'', ''undefined'', ''never''}),
          has_function = (contains t ''=>'' \<or> contains lower_t ''function'' \<or> contains lower_t ''callback''),
          has_object = (lower_t = ''object'' \<or> startswith t ''{'' \<or> contains lower_t ''record''),
          has_array = (contains t ''[]'' \<or> startswith lower_t ''array'' \<or> contains lower_t ''list'')\<rparr>)"

record typesig =
  strict_hash :: string
  loose_hash :: string
  canonical :: string
  arity :: int

text \<open>\<^verbatim>\<open>", ".join(param_types)\<close>\<close>

fun join_comma :: "string list \<Rightarrow> string" where
  "join_comma [] = []"
| "join_comma [x] = x"
| "join_comma (x # y # ys) = x @ '', '' @ join_comma (y # ys)"

text \<open>
  \<^verbatim>\<open>normalize_type\<close> returns the two hashes and the canonical string, here as a triple;
  \<^verbatim>\<open>compute_type_signatures\<close> adds \<^verbatim>\<open>sig["arity"] = len(params)\<close>.
\<close>

definition normalize_type :: "(json \<Rightarrow> string) \<Rightarrow> param list \<Rightarrow> string \<Rightarrow> string \<times> string \<times> string" where
  "normalize_type H params return_type =
     (let param_types = map (\<lambda>p. case param_type p of None \<Rightarrow> ''any'' | Some t \<Rightarrow> t) params;
          strict_data = JObj [(''params'', JArr (map JStr param_types)), (''return'', JStr return_type)];
          n_arity = int (length param_types);
          ret_class = classify_type return_type;
          has_function_param = list_ex (\<lambda>pt. has_function (classify_type pt)) param_types;
          has_object_param = list_ex (\<lambda>pt. has_object (classify_type pt)) param_types;
          has_array_param = list_ex (\<lambda>pt. has_array (classify_type pt)) param_types;
          loose_data = JObj [(''arity'', JInt n_arity),
                             (''has_array_param'', JBool has_array_param),
                             (''has_function_param'', JBool has_function_param),
                             (''has_object_param'', JBool has_object_param),
                             (''has_void_return'', JBool (has_void ret_class))];
          canonical_params = (if param_types \<noteq> [] then join_comma param_types else [])
      in (H strict_data, H loose_data, ''('' @ canonical_params @ '') => '' @ return_type))"

fun type_signatures_loop ::
  "(json \<Rightarrow> string) \<Rightarrow> unit list \<Rightarrow> (string \<times> typesig) list \<Rightarrow> (string \<times> typesig) list" where
  "type_signatures_loop H [] result = result"
| "type_signatures_loop H (u # us) result =
     (if unit_id u = [] then type_signatures_loop H us result
      else (let params = (case parameters u of
                            Some ps \<Rightarrow> ps
                          | None \<Rightarrow> (case props u of Some ps \<Rightarrow> ps | None \<Rightarrow> []));
                return_type = (case returnType u of None \<Rightarrow> ''any'' | Some r \<Rightarrow> r);
                sg = normalize_type H params return_type
            in type_signatures_loop H us
                 (AList.update (unit_id u)
                    \<lparr>strict_hash = fst sg,
                     loose_hash = fst (snd sg),
                     canonical = snd (snd sg),
                     arity = int (length params)\<rparr> result)))"

definition compute_type_signatures :: "(json \<Rightarrow> string) \<Rightarrow> unit list \<Rightarrow> (string \<times> typesig) list" where
  "compute_type_signatures H units = type_signatures_loop H units []"

subsection \<open>\<^verbatim>\<open>callgraph.py\<close>\<close>

definition callee_str :: "callee \<Rightarrow> string" where
  "callee_str c = (case c of CalleeRec t \<Rightarrow> t | CalleeOther x \<Rightarrow> x)"

text \<open>One unit of \<^verbatim>\<open>_compute_callee_idf\<close>: the state is \<^verbatim>\<open>(seen, callee_doc_counts)\<close>.\<close>

fun callee_docs_unit ::
  "callee list \<Rightarrow> string set \<times> (string \<times> nat) list \<Rightarrow> string set \<times> (string \<times> nat) list" where
  "callee_docs_unit [] st = st"
| "callee_docs_unit (c # cs) (seen, counts) =
     (let target = callee_str c
      in if target \<noteq> [] \<and> target \<notin> seen
         then callee_docs_unit cs (insert target seen, AList.update target (get_or counts target 0 + 1) counts)
         else callee_docs_unit cs (seen, counts))"

fun callee_doc_counts :: "unit list \<Rightarrow> (string \<times> nat) list \<Rightarrow> (string \<times> nat) list" where
  "callee_doc_counts [] counts = counts"
| "callee_doc_counts (u # us) counts =
     callee_doc_counts us (snd (callee_docs_unit (callees u) ({}, counts)))"

definition compute_callee_idf :: "unit list \<Rightarrow> string sparse" where
  "compute_callee_idf units =
     (let doc_count = length units
      in if doc_count = 0 then [] else idf_of_counts doc_count (callee_doc_counts units []))"

fun callee_set_vector_loop :: "callee list \<Rightarrow> string sparse \<Rightarrow> string sparse \<Rightarrow> string sparse" where
  "callee_set_vector_loop [] idf vec = vec"
| "callee_set_vector_loop (c # cs) idf vec =
     (let target = callee_str c
      in callee_set_vector_loop cs idf
           (case map_of idf target of
              None \<Rightarrow> vec
            | Some w \<Rightarrow> if target \<noteq> [] then AList.update target (get_or vec target 0 + w) vec else vec))"

definition callee_set_vector :: "unit \<Rightarrow> string sparse \<Rightarrow> string sparse" where
  "callee_set_vector u idf = callee_set_vector_loop (callees u) idf []"

fun sequence_hashes_loop ::
  "(json \<Rightarrow> string) \<Rightarrow> (string \<times> string list) list \<Rightarrow> (string \<times> string) list \<Rightarrow> (string \<times> string) list" where
  "sequence_hashes_loop H [] result = result"
| "sequence_hashes_loop H ((ctx, sq) # rest) result =
     sequence_hashes_loop H rest
       (if sq \<noteq> [] then AList.update ctx (H (JArr (map JStr sq))) result else result)"

definition sequence_hashes :: "(json \<Rightarrow> string) \<Rightarrow> unit \<Rightarrow> (string \<times> string) list" where
  "sequence_hashes H u = sequence_hashes_loop H (calleeSequence u) []"

text \<open>
  Of a call vector the scoring reads \<^verbatim>\<open>calleeSetVector\<close> and \<^verbatim>\<open>sequenceHashes\<close>; the
  fields \<^verbatim>\<open>chainPatternHashes\<close> and \<^verbatim>\<open>depthProfile\<close>, which nothing downstream reads,
  are left out.
\<close>

record call_vector =
  calleeSetVector :: "string sparse"
  sequenceHashes :: "(string \<times> string) list"

fun call_vectors_loop ::
  "(json \<Rightarrow> string) \<Rightarrow> string sparse \<Rightarrow> unit list \<Rightarrow> (string \<times> call_vector) list
     \<Rightarrow> (string \<times> call_vector) list" where
  "call_vectors_loop H idf [] result = result"
| "call_vectors_loop H idf (u # us) result =
     (if unit_id u = [] then call_vectors_loop H idf us result
      else call_vectors_loop H idf us
             (AList.update (unit_id u)
                \<lparr>calleeSetVector = callee_set_vector u idf,
                 sequenceHashes = sequence_hashes H u\<rparr> result))"

definition compute_call_vectors :: "(json \<Rightarrow> string) \<Rightarrow> unit list \<Rightarrow> (string \<times> call_vector) list" where
  "compute_call_vectors H units = call_vectors_loop H (compute_callee_idf units) units []"

subsection \<open>\<^verbatim>\<open>depcontext.py\<close>\<close>

text \<open>
  \<^verbatim>\<open>_shannon_entropy\<close>. \<^verbatim>\<open>math.log2(p)\<close> raises \<^verbatim>\<open>ValueError\<close> when \<open>p \<le> 0\<close>, which a
  positive count over a negative total gives.
\<close>

fun entropy_loop :: "int list \<Rightarrow> int \<Rightarrow> real \<Rightarrow> py_error + real" where
  "entropy_loop [] total_n entropy = Inr entropy"
| "entropy_loop (c # cs) total_n entropy =
     (if 0 < c
      then (let p = real_of_int c / real_of_int total_n
            in if p \<le> 0 then Inl ValueError
               else entropy_loop cs total_n (entropy - p * log 2 p))
      else entropy_loop cs total_n entropy)"

definition shannon_entropy :: "(string \<times> int) list \<Rightarrow> py_error + real" where
  "shannon_entropy counts =
     (let total_n = sum_list (map snd counts)
      in if total_n = 0 then Inr 0 else entropy_loop (map snd counts) total_n 0)"

fun kind_counts_loop :: "string list \<Rightarrow> (string \<times> int) list \<Rightarrow> (string \<times> int) list" where
  "kind_counts_loop [] kind_counts = kind_counts"
| "kind_counts_loop (k # ks) kind_counts =
     kind_counts_loop ks (AList.update k (get_or kind_counts k 0 + 1) kind_counts)"

definition consumer_path :: "consumer \<Rightarrow> string" where
  "consumer_path c =
     (case c of
        ConsumerRec i ui fp fl \<Rightarrow>
          (case fp of Some x \<Rightarrow> x | None \<Rightarrow> (case fl of Some y \<Rightarrow> y | None \<Rightarrow> []))
      | ConsumerOther x \<Rightarrow> x)"

definition consumer_profile :: "unit \<Rightarrow> py_error + real list" where
  "consumer_profile u =
     (let consumer_count = (case consumerCount u of None \<Rightarrow> int (length (consumers u)) | Some n \<Rightarrow> n);
          normalized_count = (if 0 < consumer_count then min 1 (real_of_int consumer_count / 50) else 0);
          consumer_kinds = (case consumerKinds u of
                              KindsDict d \<Rightarrow> d
                            | KindsList l \<Rightarrow> kind_counts_loop l []);
          kind_entropy = (if consumer_kinds \<noteq> [] then shannon_entropy consumer_kinds else Inr 0);
          distinct_dirs = (case consumerDirectories u of
                             DirsList l \<Rightarrow> card (set l)
                           | DirsDict d \<Rightarrow> length d
                           | DirsOther \<Rightarrow>
                               card ((\<lambda>c. rsplit1_head CHR ''/'' (consumer_path c))
                                      ` {c \<in> set (consumers u). has_slash (consumer_path c)}));
          total_consumers = max consumer_count 1;
          dir_spread = (if 0 < distinct_dirs then real distinct_dirs / real_of_int total_consumers else 0)
      in case kind_entropy of
           Inl e \<Rightarrow> Inl e
         | Inr h \<Rightarrow> Inr [normalized_count, h, min 1 dir_spread])"

definition cooc_weight :: "real option \<Rightarrow> real option \<Rightarrow> real" where
  "cooc_weight ratio cnt = (case ratio of Some r \<Rightarrow> r | None \<Rightarrow> (case cnt of Some c \<Rightarrow> c | None \<Rightarrow> 1))"

fun cooc_list_loop :: "cooc_entry list \<Rightarrow> string sparse \<Rightarrow> string sparse" where
  "cooc_list_loop [] vec = vec"
| "cooc_list_loop (CoEntry ui i ratio cnt # es) vec =
     (let uid = (case ui of Some x \<Rightarrow> x | None \<Rightarrow> (case i of Some y \<Rightarrow> y | None \<Rightarrow> []))
      in cooc_list_loop es (if uid \<noteq> [] then AList.update uid (cooc_weight ratio cnt) vec else vec))"
| "cooc_list_loop (CoEntryOther # es) vec = cooc_list_loop es vec"

fun cooc_dict_loop :: "(string \<times> cooc_val) list \<Rightarrow> string sparse \<Rightarrow> string sparse" where
  "cooc_dict_loop [] vec = vec"
| "cooc_dict_loop ((uid, CoNum x) # es) vec = cooc_dict_loop es (AList.update uid x vec)"
| "cooc_dict_loop ((uid, CoRec ratio cnt) # es) vec =
     cooc_dict_loop es (AList.update uid (cooc_weight ratio cnt) vec)"
| "cooc_dict_loop ((uid, CoValOther) # es) vec = cooc_dict_loop es vec"

definition cooccurrence_vector :: "unit \<Rightarrow> string sparse" where
  "cooccurrence_vector u =
     (case coOccurrences u of
        CoList l \<Rightarrow> cooc_list_loop l []
      | CoDict d \<Rightarrow> cooc_dict_loop d []
      | CoOther \<Rightarrow> [])"

text \<open>\<^verbatim>\<open>c.get("id", c.get("unitId", ""))\<close> for a record, \<^verbatim>\<open>str(c)\<close> otherwise.\<close>

definition consumer_cid :: "consumer \<Rightarrow> string" where
  "consumer_cid c =
     (case c of
        ConsumerRec i ui fp fl \<Rightarrow>
          (case i of Some x \<Rightarrow> x | None \<Rightarrow> (case ui of Some y \<Rightarrow> y | None \<Rightarrow> []))
      | ConsumerOther x \<Rightarrow> x)"

definition extract_consumer_ids :: "unit \<Rightarrow> string set" where
  "extract_consumer_ids u = {cid \<in> set (map consumer_cid (consumers u)). cid \<noteq> []}"

fun build_consumer_graph_loop :: "unit list \<Rightarrow> (string \<times> string set) list \<Rightarrow> (string \<times> string set) list" where
  "build_consumer_graph_loop [] graph = graph"
| "build_consumer_graph_loop (u # us) graph =
     (if unit_id u = [] then build_consumer_graph_loop us graph
      else build_consumer_graph_loop us (AList.update (unit_id u) (extract_consumer_ids u) graph))"

definition build_consumer_graph :: "unit list \<Rightarrow> (string \<times> string set) list" where
  "build_consumer_graph units = build_consumer_graph_loop units []"

text \<open>
  The breadth-first loop of \<^verbatim>\<open>neighborhood_hash\<close>: one round takes every neighbour of
  the frontier that is not yet visited; the rounds stop after \<open>radius\<close> of them or at an
  empty frontier.
\<close>

fun neighborhood_loop ::
  "nat \<Rightarrow> (string \<times> string set) list \<Rightarrow> string set \<Rightarrow> string set \<Rightarrow> string set" where
  "neighborhood_loop 0 graph visited frontier = visited"
| "neighborhood_loop (Suc r) graph visited frontier =
     (let next_frontier = (\<Union>nid \<in> frontier. get_or graph nid {}) - visited;
          visited' = visited \<union> next_frontier
      in if next_frontier = {} then visited'
         else neighborhood_loop r graph visited' next_frontier)"

definition neighborhood_hash ::
  "(json \<Rightarrow> string) \<Rightarrow> string \<Rightarrow> (string \<times> string set) list \<Rightarrow> nat \<Rightarrow> string" where
  "neighborhood_hash H uid consumer_graph radius =
     (let visited = neighborhood_loop radius consumer_graph {uid} {uid};
          neighborhood = sorted_list_of_set (visited - {uid})
      in H (JArr (map JStr neighborhood)))"

record dep_context =
  consumerProfile :: "real list"
  cooccurrenceVector :: "string sparse"
  neighborhoodHash_r1 :: string
  neighborhoodHash_r2 :: string

fun dep_context_loop ::
  "(json \<Rightarrow> string) \<Rightarrow> (string \<times> string set) list \<Rightarrow> unit list \<Rightarrow> (string \<times> dep_context) list
     \<Rightarrow> py_error + (string \<times> dep_context) list" where
  "dep_context_loop H consumer_graph [] result = Inr result"
| "dep_context_loop H consumer_graph (u # us) result =
     (if unit_id u = [] then dep_context_loop H consumer_graph us result
      else (case consumer_profile u of
              Inl e \<Rightarrow> Inl e
            | Inr cp \<Rightarrow>
                dep_context_loop H consumer_graph us
                  (AList.update (unit_id u)
                     \<lparr>consumerProfile = cp,
                      cooccurrenceVector = cooccurrence_vector u,
                      neighborhoodHash_r1 = neighborhood_hash H (unit_id u) consumer_graph 1,
                      neighborhoodHash_r2 = neighborhood_hash H (unit_id u) consumer_graph 2\<rparr>
                     result)))"

definition compute_dep_context ::
  "(json \<Rightarrow> string) \<Rightarrow> unit list \<Rightarrow> py_error + (string \<times> dep_context) list" where
  "compute_dep_context H units = dep_context_loop H (build_consumer_graph units) units []"

subsection \<open>\<^verbatim>\<open>score.py\<close>: the weight tables and their adaptation\<close>

definition WEIGHTS_WITH_EMBEDDINGS :: "(string \<times> real) list" where
  "WEIGHTS_WITH_EMBEDDINGS =
     [(''semantic'', 0.20),
      (''typeSignature'', 0.12),
      (''jsxStructure'', 0.13),
      (''hookProfile'', 0.05),
      (''imports'', 0.05),
      (''dataAccess'', 0.03),
      (''behavior'', 0.02),
      (''calleeSet'', 0.10),
      (''callSequence'', 0.10),
      (''consumerSet'', 0.08),
      (''coOccurrence'', 0.07),
      (''neighborhood'', 0.05)]"

definition WEIGHTS_WITHOUT_EMBEDDINGS :: "(string \<times> real) list" where
  "WEIGHTS_WITHOUT_EMBEDDINGS =
     [(''typeSignature'', 0.16),
      (''jsxStructure'', 0.16),
      (''hookProfile'', 0.06),
      (''imports'', 0.06),
      (''dataAccess'', 0.04),
      (''behavior'', 0.02),
      (''calleeSet'', 0.13),
      (''callSequence'', 0.13),
      (''consumerSet'', 0.10),
      (''coOccurrence'', 0.08),
      (''neighborhood'', 0.06)]"

definition SKIP_KINDS :: "string set" where
  "SKIP_KINDS = {''type'', ''enum'', ''constant'', ''interface'', ''typeAlias''}"

definition RELATED_KINDS :: "string set set" where
  "RELATED_KINDS = {{''component'', ''hook''}, {''hook'', ''function''}}"

definition is_comparable :: "string \<Rightarrow> string \<Rightarrow> bool" where
  "is_comparable kind_a kind_b =
     (if kind_a = kind_b then True else {kind_a, kind_b} \<in> RELATED_KINDS)"

text \<open>
  \<^verbatim>\<open>for k in base: base[k] *= f\<close> and \<^verbatim>\<open>for k in base: base[k] /= total\<close>. In
  \<open>get_weights\<close> the two Python variables named \<^verbatim>\<open>total\<close> are \<open>total0\<close> and \<open>total1\<close>.
\<close>

definition scale_values :: "real \<Rightarrow> ('k \<times> real) list \<Rightarrow> ('k \<times> real) list" where
  "scale_values f d = map (\<lambda>(k, w). (k, w * f)) d"

definition divide_values :: "real \<Rightarrow> ('k \<times> real) list \<Rightarrow> ('k \<times> real) list" where
  "divide_values t d = map (\<lambda>(k, w). (k, w / t)) d"

definition get_weights :: "bool \<Rightarrow> bool \<Rightarrow> string \<Rightarrow> string \<Rightarrow> (string \<times> real) list" where
  "get_weights has_embeddings has_structural_patterns kind_a kind_b =
     (let base0 = (if has_embeddings then WEIGHTS_WITH_EMBEDDINGS
                   else WEIGHTS_WITHOUT_EMBEDDINGS);
          base1 = (if has_structural_patterns
                   then (let total0 = sum_values base0;
                             reduction = 0.05
                         in AList.update ''structuralPattern'' 0.05
                              (scale_values ((total0 - reduction) / total0) base0))
                   else base0);
          is_both_components = (kind_a = ''component'' \<and> kind_b = ''component'');
          has_hooks = (kind_a \<in> {''component'', ''hook''} \<and> kind_b \<in> {''component'', ''hook''});
          signals_to_drop = (if \<not> is_both_components then [''jsxStructure''] else [])
                          @ (if \<not> has_hooks then [''hookProfile''] else []);
          base2 = fold AList.delete signals_to_drop base1;
          total1 = sum_values base2
      in if 0 < total1 then divide_values total1 base2 else base2)"

subsection \<open>\<^verbatim>\<open>score.py\<close>: the signals\<close>

text \<open>
  The artifacts are dicts keyed by unit id. \<^verbatim>\<open>art.get(uid, {}).get(field, default)\<close> is
  \<open>field_or art uid field default\<close>.
\<close>

definition field_or :: "(string \<times> 'r) list \<Rightarrow> string \<Rightarrow> ('r \<Rightarrow> 'v) \<Rightarrow> 'v \<Rightarrow> 'v" where
  "field_or art uid field dflt = (case map_of art uid of None \<Rightarrow> dflt | Some r \<Rightarrow> field r)"

text \<open>
  \<^verbatim>\<open>{str(i): v for i, v in enumerate(xs)}\<close>: the key \<^verbatim>\<open>str(i)\<close> is modelled by the
  index \<open>i\<close> itself (\<^verbatim>\<open>str\<close> is one-to-one on the indices).
\<close>

definition enumerate_vec :: "real list \<Rightarrow> nat sparse" where
  "enumerate_vec xs = zip [0..<length xs] xs"

definition sig_semantic :: "string \<Rightarrow> string \<Rightarrow> (string \<times> real list) list \<Rightarrow> real" where
  "sig_semantic uid_a uid_b embeddings =
     (case (map_of embeddings uid_a, map_of embeddings uid_b) of
        (Some emb_a, Some emb_b) \<Rightarrow> cosine_sim (enumerate_vec emb_a) (enumerate_vec emb_b)
      | _ \<Rightarrow> 0)"

definition sig_type_signature :: "string \<Rightarrow> string \<Rightarrow> (string \<times> typesig) list \<Rightarrow> real" where
  "sig_type_signature uid_a uid_b typesigs =
     (case (map_of typesigs uid_a, map_of typesigs uid_b) of
        (Some sig_a, Some sig_b) \<Rightarrow>
          if strict_hash sig_a \<noteq> [] \<and> strict_hash sig_a = strict_hash sig_b then 1.0
          else if loose_hash sig_a \<noteq> [] \<and> loose_hash sig_a = loose_hash sig_b then 0.7
          else if 0 < arity sig_a \<and> arity sig_a = arity sig_b then 0.4
          else 0
      | _ \<Rightarrow> 0)"

text \<open>The truth value of an optional hash: neither \<^verbatim>\<open>None\<close> nor the empty string.\<close>

definition truthy :: "string option \<Rightarrow> bool" where
  "truthy h = (case h of None \<Rightarrow> False | Some x \<Rightarrow> x \<noteq> [])"

definition sig_jsx_structure ::
  "string \<Rightarrow> string \<Rightarrow> (string \<times> fingerprint) list \<Rightarrow> (string \<times> unit) list \<Rightarrow> real" where
  "sig_jsx_structure uid_a uid_b fps units_by_id =
     (let tree_a = field_or units_by_id uid_a jsxTree None;
          tree_b = field_or units_by_id uid_b jsxTree None
      in if tree_a = None \<or> tree_b = None then 0
         else (let fp_a = field_or fps uid_a jsxHash \<lparr>exact = None, fuzzy = None\<rparr>;
                   fp_b = field_or fps uid_b jsxHash \<lparr>exact = None, fuzzy = None\<rparr>
               in if truthy (exact fp_a) \<and> exact fp_a = exact fp_b then 1.0
                  else if truthy (fuzzy fp_a) \<and> fuzzy fp_a = fuzzy fp_b then 0.9
                  else tree_edit_distance_normalized tree_a tree_b))"

text \<open>\<^verbatim>\<open>{str(i): float(v) for i, v in enumerate(hp) if v}\<close>\<close>

definition hook_vec :: "int list \<Rightarrow> nat sparse" where
  "hook_vec hp = map (\<lambda>(i, v). (i, real_of_int v)) (filter (\<lambda>(i, v). v \<noteq> 0) (zip [0..<length hp] hp))"

definition sig_hook_profile :: "string \<Rightarrow> string \<Rightarrow> (string \<times> fingerprint) list \<Rightarrow> real" where
  "sig_hook_profile uid_a uid_b fps =
     (let hp_a = field_or fps uid_a hookProfile [];
          hp_b = field_or fps uid_b hookProfile []
      in if hp_a = [] \<or> hp_b = [] then 0
         else cosine_sim (hook_vec hp_a) (hook_vec hp_b))"

definition sig_imports :: "string \<Rightarrow> string \<Rightarrow> (string \<times> fingerprint) list \<Rightarrow> real" where
  "sig_imports uid_a uid_b fps =
     cosine_sim (field_or fps uid_a importConstellation []) (field_or fps uid_b importConstellation [])"

definition sig_data_access :: "string \<Rightarrow> string \<Rightarrow> (string \<times> fingerprint) list \<Rightarrow> real" where
  "sig_data_access uid_a uid_b fps =
     (let dap_a = field_or fps uid_a dataAccessPattern [];
          dap_b = field_or fps uid_b dataAccessPattern []
      in if dap_a = [] \<and> dap_b = [] then 0
         else jaccard_sim (set (map fst dap_a)) (set (map fst dap_b)))"

definition sig_behavior :: "string \<Rightarrow> string \<Rightarrow> (string \<times> fingerprint) list \<Rightarrow> real" where
  "sig_behavior uid_a uid_b fps =
     (let bf_a = field_or fps uid_a behaviorFlags [];
          bf_b = field_or fps uid_b behaviorFlags []
      in if bf_a = [] \<and> bf_b = [] then 1.0
         else normalized_hamming bf_a bf_b)"

definition sig_callee_set :: "string \<Rightarrow> string \<Rightarrow> (string \<times> call_vector) list \<Rightarrow> real" where
  "sig_callee_set uid_a uid_b cg =
     cosine_sim (field_or cg uid_a calleeSetVector []) (field_or cg uid_b calleeSetVector [])"

definition sig_call_sequence :: "string \<Rightarrow> string \<Rightarrow> (string \<times> call_vector) list \<Rightarrow> real" where
  "sig_call_sequence uid_a uid_b cg =
     (let seq_a = field_or cg uid_a sequenceHashes [];
          seq_b = field_or cg uid_b sequenceHashes [];
          common_contexts = set (map fst seq_a) \<inter> set (map fst seq_b)
      in if common_contexts = {} then 0
         else if \<exists>ctx \<in> common_contexts. map_of seq_a ctx = map_of seq_b ctx then 1.0
         else 0.3 * real (card common_contexts) / real (max (length seq_a) (length seq_b)))"

text \<open>
  \<^verbatim>\<open>units_by_id.get(uid, {})\<close> followed by \<^verbatim>\<open>_extract_consumer_ids\<close>: an unknown id has
  no consumers.
\<close>

definition consumer_ids_of :: "(string \<times> unit) list \<Rightarrow> string \<Rightarrow> string set" where
  "consumer_ids_of units_by_id uid =
     (case map_of units_by_id uid of None \<Rightarrow> {} | Some u \<Rightarrow> extract_consumer_ids u)"

definition sig_consumer_set :: "string \<Rightarrow> string \<Rightarrow> (string \<times> unit) list \<Rightarrow> real" where
  "sig_consumer_set uid_a uid_b units_by_id =
     (let consumers_a = consumer_ids_of units_by_id uid_a;
          consumers_b = consumer_ids_of units_by_id uid_b
      in if consumers_a = {} \<and> consumers_b = {} then 0
         else (let base = jaccard_sim consumers_a consumers_b;
                   shared = consumers_a \<inter> consumers_b;
                   dirs = (\<lambda>cid. rsplit1_head CHR ''/'' (field_or units_by_id cid filePath []))
                            ` {cid \<in> shared. has_slash (field_or units_by_id cid filePath [])}
               in if shared \<noteq> {} \<and> 1 < card dirs then min 1.0 (base * 1.2) else base))"

definition sig_cooccurrence :: "string \<Rightarrow> string \<Rightarrow> (string \<times> dep_context) list \<Rightarrow> real" where
  "sig_cooccurrence uid_a uid_b dc =
     cosine_sim (field_or dc uid_a cooccurrenceVector []) (field_or dc uid_b cooccurrenceVector [])"

definition sig_neighborhood :: "string \<Rightarrow> string \<Rightarrow> (string \<times> dep_context) list \<Rightarrow> real" where
  "sig_neighborhood uid_a uid_b dc =
     (let r1_a = map_option neighborhoodHash_r1 (map_of dc uid_a);
          r1_b = map_option neighborhoodHash_r1 (map_of dc uid_b)
      in if truthy r1_a \<and> r1_a = r1_b then 1.0
         else (let r2_a = map_option neighborhoodHash_r2 (map_of dc uid_a);
                   r2_b = map_option neighborhoodHash_r2 (map_of dc uid_b)
               in if truthy r2_a \<and> r2_a = r2_b then 0.6 else 0))"

definition sig_structural_pattern :: "string \<Rightarrow> string \<Rightarrow> (string \<times> string list) list \<Rightarrow> real" where
  "sig_structural_pattern uid_a uid_b patterns =
     (let pa = get_or patterns uid_a [];
          pb = get_or patterns uid_b []
      in if pa = [] \<and> pb = [] then 0
         else jaccard_sim (set pa) (set pb))"

subsection \<open>\<^verbatim>\<open>score.py\<close>: the main loop\<close>

record artifacts =
  fps :: "(string \<times> fingerprint) list"
  typesigs :: "(string \<times> typesig) list"
  cg :: "(string \<times> call_vector) list"
  dc :: "(string \<times> dep_context) list"
  embeddings :: "(string \<times> real list) list"
  structural_patterns :: "(string \<times> string list) list"

text \<open>
  The optional artifacts \<^verbatim>\<open>semantic-embeddings.json\<close> and \<^verbatim>\<open>structural-patterns.json\<close>
  are the empty dict when their file is missing.
\<close>

record scored_pair =
  unitA :: string
  unitB :: string
  score :: real
  signals :: "(string \<times> real) list"
  dominantSignal :: string

text \<open>
  The signals of one pair, in the order in which the loop body stores them. Each key is
  stored once, so the dict is the list of the entries.
\<close>

definition compute_signals ::
  "(string \<times> real) list \<Rightarrow> string \<Rightarrow> string \<Rightarrow> (string \<times> unit) list \<Rightarrow> artifacts \<Rightarrow> (string \<times> real) list" where
  "compute_signals weights uid_a uid_b units_by_id arts =
     (let has = (\<lambda>name. name \<in> set (map fst weights))
      in (if has ''semantic'' then [(''semantic'', sig_semantic uid_a uid_b (embeddings arts))] else [])
       @ (if has ''typeSignature'' then [(''typeSignature'', sig_type_signature uid_a uid_b (typesigs arts))] else [])
       @ (if has ''jsxStructure'' then [(''jsxStructure'', sig_jsx_structure uid_a uid_b (fps arts) units_by_id)] else [])
       @ (if has ''hookProfile'' then [(''hookProfile'', sig_hook_profile uid_a uid_b (fps arts))] else [])
       @ (if has ''imports'' then [(''imports'', sig_imports uid_a uid_b (fps arts))] else [])
       @ (if has ''dataAccess'' then [(''dataAccess'', sig_data_access uid_a uid_b (fps arts))] else [])
       @ (if has ''behavior'' then [(''behavior'', sig_behavior uid_a uid_b (fps arts))] else [])
       @ (if has ''calleeSet'' then [(''calleeSet'', sig_callee_set uid_a uid_b (cg arts))] else [])
       @ (if has ''callSequence'' then [(''callSequence'', sig_call_sequence uid_a uid_b (cg arts))] else [])
       @ (if has ''consumerSet'' then [(''consumerSet'', sig_consumer_set uid_a uid_b units_by_id)] else [])
       @ (if has ''coOccurrence'' then [(''coOccurrence'', sig_cooccurrence uid_a uid_b (dc arts))] else [])
       @ (if has ''neighborhood'' then [(''neighborhood'', sig_neighborhood uid_a uid_b (dc arts))] else [])
       @ (if has ''structuralPattern''
          then [(''structuralPattern'', sig_structural_pattern uid_a uid_b (structural_patterns arts))] else []))"

definition weighted_sum :: "(string \<times> real) list \<Rightarrow> (string \<times> real) list \<Rightarrow> real" where
  "weighted_sum weights sigs = sum_list (map (\<lambda>(sig_name, sig_val). get_or weights sig_name 0 * sig_val) sigs)"

text \<open>\<^verbatim>\<open>max(signals, key=lambda s: signals[s]) if signals else ""\<close>: the first key of the largest value.\<close>

fun max_key_loop :: "(string \<times> real) list \<Rightarrow> string \<times> real \<Rightarrow> string \<times> real" where
  "max_key_loop [] best = best"
| "max_key_loop ((k, v) # rest) (bk, bv) = max_key_loop rest (if bv < v then (k, v) else (bk, bv))"

definition dominant :: "(string \<times> real) list \<Rightarrow> string" where
  "dominant sigs = (case sigs of [] \<Rightarrow> [] | kv # rest \<Rightarrow> fst (max_key_loop rest kv))"

text \<open>
  The body of the inner loop for the pair \<open>(uid_a, uid_b)\<close>: \<open>None\<close> when the pair is
  skipped or scores below the threshold, the appended record otherwise.
  \<open>pair_score\<close> is the part of the body from the weights to the weighted sum.
\<close>

definition pair_weights :: "(string \<times> unit) list \<Rightarrow> artifacts \<Rightarrow> string \<Rightarrow> string \<Rightarrow> (string \<times> real) list" where
  "pair_weights units_by_id arts uid_a uid_b =
     get_weights (embeddings arts \<noteq> []) (structural_patterns arts \<noteq> [])
       (field_or units_by_id uid_a get_kind []) (field_or units_by_id uid_b get_kind [])"

definition pair_signals :: "(string \<times> unit) list \<Rightarrow> artifacts \<Rightarrow> string \<Rightarrow> string \<Rightarrow> (string \<times> real) list" where
  "pair_signals units_by_id arts uid_a uid_b =
     compute_signals (pair_weights units_by_id arts uid_a uid_b) uid_a uid_b units_by_id arts"

definition pair_score :: "(string \<times> unit) list \<Rightarrow> artifacts \<Rightarrow> string \<Rightarrow> string \<Rightarrow> real" where
  "pair_score units_by_id arts uid_a uid_b =
     weighted_sum (pair_weights units_by_id arts uid_a uid_b) (pair_signals units_by_id arts uid_a uid_b)"

definition score_pair ::
  "(string \<times> unit) list \<Rightarrow> artifacts \<Rightarrow> real \<Rightarrow> string \<Rightarrow> string \<Rightarrow> scored_pair option" where
  "score_pair units_by_id arts threshold uid_a uid_b =
     (let kind_a = field_or units_by_id uid_a get_kind [];
          kind_b = field_or units_by_id uid_b get_kind [];
          file_a = field_or units_by_id uid_a filePath [];
          file_b = field_or units_by_id uid_b filePath []
      in if file_a \<noteq> [] \<and> file_b \<noteq> [] \<and> file_a = file_b then None
         else if \<not> is_comparable kind_a kind_b then None
         else (let sigs = pair_signals units_by_id arts uid_a uid_b;
                   sc = pair_score units_by_id arts uid_a uid_b
               in if threshold \<le> sc
                  then Some \<lparr>unitA = uid_a, unitB = uid_b,
                             score = py_round sc 4,
                             signals = map (\<lambda>(k, v). (k, py_round v 4)) sigs,
                             dominantSignal = dominant sigs\<rparr>
                  else None))"

fun build_units_by_id :: "unit list \<Rightarrow> (string \<times> unit) list \<Rightarrow> (string \<times> unit) list" where
  "build_units_by_id [] units_by_id = units_by_id"
| "build_units_by_id (u # us) units_by_id =
     build_units_by_id us (if unit_id u \<noteq> [] then AList.update (unit_id u) u units_by_id else units_by_id)"

text \<open>The loops \<^verbatim>\<open>for i in range(n): for j in range(i + 1, n)\<close> over the candidate ids.\<close>

fun inner_loop ::
  "(string \<times> unit) list \<Rightarrow> artifacts \<Rightarrow> real \<Rightarrow> string \<Rightarrow> string list \<Rightarrow> scored_pair list \<Rightarrow> scored_pair list" where
  "inner_loop units_by_id arts threshold uid_a [] scored_pairs = scored_pairs"
| "inner_loop units_by_id arts threshold uid_a (uid_b # rest) scored_pairs =
     inner_loop units_by_id arts threshold uid_a rest
       (case score_pair units_by_id arts threshold uid_a uid_b of
          None \<Rightarrow> scored_pairs
        | Some p \<Rightarrow> scored_pairs @ [p])"

fun outer_loop ::
  "(string \<times> unit) list \<Rightarrow> artifacts \<Rightarrow> real \<Rightarrow> string list \<Rightarrow> scored_pair list \<Rightarrow> scored_pair list" where
  "outer_loop units_by_id arts threshold [] scored_pairs = scored_pairs"
| "outer_loop units_by_id arts threshold (uid_a # rest) scored_pairs =
     outer_loop units_by_id arts threshold rest
       (inner_loop units_by_id arts threshold uid_a rest scored_pairs)"

definition compute_scores :: "unit list \<Rightarrow> artifacts \<Rightarrow> real \<Rightarrow> scored_pair list" where
  "compute_scores units arts threshold =
     (let units_by_id = build_units_by_id units [];
          candidate_ids = map fst (filter (\<lambda>(uid, u). get_kind u \<notin> SKIP_KINDS) units_by_id);
          scored_pairs = outer_loop units_by_id arts threshold candidate_ids []
      in sort_key (\<lambda>p. - score p) scored_pairs)"

text \<open>
  The stages of \<^verbatim>\<open>run\<close> up to the similarity matrix: each artifact is computed from
  the same inventory and handed to the scoring.
\<close>

definition run_scores ::
  "(json \<Rightarrow> string) \<Rightarrow> unit list \<Rightarrow> (string \<times> real list) list \<Rightarrow> (string \<times> string list) list \<Rightarrow> real
     \<Rightarrow> py_error + scored_pair list" where
  "run_scores H units emb pats threshold =
     (case compute_dep_context H units of
        Inl e \<Rightarrow> Inl e
      | Inr dcx \<Rightarrow>
          Inr (compute_scores units
                 \<lparr>fps = compute_fingerprints H units,
                  typesigs = compute_type_signatures H units,
                  cg = compute_call_vectors H units,
                  dc = dcx,
                  embeddings = emb,
                  structural_patterns = pats\<rparr>
                 threshold))"

subsection \<open>\<^verbatim>\<open>cluster.py\<close>\<close>

text \<open>
  The graph is the list of the \<^verbatim>\<open>G.add_edge(unitA, unitB, weight=score)\<close> calls.
  \<^verbatim>\<open>nx.connected_components\<close> and \<^verbatim>\<open>nx.community.greedy_modularity_communities\<close> are
  library code: they are the parameters \<open>components\<close> and \<open>communities_of\<close>, the latter
  giving \<open>None\<close> when the library raises.
\<close>

type_synonym graph = "(string \<times> string \<times> real) list"

fun build_graph :: "scored_pair list \<Rightarrow> real \<Rightarrow> graph" where
  "build_graph [] threshold = []"
| "build_graph (pair # rest) threshold =
     (if threshold \<le> score pair
      then (unitA pair, unitB pair, score pair) # build_graph rest threshold
      else build_graph rest threshold)"

definition subgraph :: "graph \<Rightarrow> string set \<Rightarrow> graph" where
  "subgraph G component = filter (\<lambda>(a, b, w). a \<in> component \<and> b \<in> component) G"

fun detect_loop ::
  "(graph \<Rightarrow> string set list option) \<Rightarrow> graph \<Rightarrow> string set list \<Rightarrow> string set list \<Rightarrow> string set list" where
  "detect_loop communities_of G [] communities = communities"
| "detect_loop communities_of G (component # rest) communities =
     detect_loop communities_of G rest
       (if card component \<le> 5 then communities @ [component]
        else (case communities_of (subgraph G component) of
                Some sub_communities \<Rightarrow> communities @ filter (\<lambda>sc. 2 \<le> card sc) sub_communities
              | None \<Rightarrow> communities @ [component]))"

definition detect_communities ::
  "(graph \<Rightarrow> string set list) \<Rightarrow> (graph \<Rightarrow> string set list option) \<Rightarrow> graph \<Rightarrow> string set list" where
  "detect_communities components communities_of G = detect_loop communities_of G (components G) []"

definition intra :: "string set \<Rightarrow> scored_pair \<Rightarrow> bool" where
  "intra members pair = (unitA pair \<in> members \<and> unitB pair \<in> members)"

fun add_signals :: "(string \<times> real) list \<Rightarrow> (string \<times> real) list \<Rightarrow> (string \<times> real) list" where
  "add_signals [] signal_totals = signal_totals"
| "add_signals ((sig_name, sig_val) # rest) signal_totals =
     add_signals rest (AList.update sig_name (get_or signal_totals sig_name 0 + sig_val) signal_totals)"

fun signal_totals_loop ::
  "string set \<Rightarrow> scored_pair list \<Rightarrow> (string \<times> real) list \<times> nat \<Rightarrow> (string \<times> real) list \<times> nat" where
  "signal_totals_loop members [] st = st"
| "signal_totals_loop members (pair # rest) (signal_totals, edge_count) =
     signal_totals_loop members rest
       (if intra members pair then (add_signals (signals pair) signal_totals, edge_count + 1)
        else (signal_totals, edge_count))"

definition get_signal_breakdown :: "string set \<Rightarrow> scored_pair list \<Rightarrow> (string \<times> real) list" where
  "get_signal_breakdown members scored_pairs =
     (case signal_totals_loop members scored_pairs ([], 0) of
        (signal_totals, edge_count) \<Rightarrow>
          if edge_count = 0 then []
          else map (\<lambda>(k, v). (k, py_round (v / real edge_count) 4)) signal_totals)"

text \<open>The directory of one member's file path, as the loop over the members adds it.\<close>

definition app_directory :: "string \<Rightarrow> string" where
  "app_directory fp =
     (let parts = split_on CHR ''/'' fp
      in if ''apps'' \<in> set parts
         then (let idx = index_of ''apps'' parts
               in if idx + 1 < length parts then parts ! (idx + 1)
                  else rsplit1_head CHR ''/'' fp)
         else (if parts \<noteq> [] then parts ! 0 else fp))"

definition cluster_directories :: "string set \<Rightarrow> (string \<times> unit) list \<Rightarrow> string set" where
  "cluster_directories members units_by_id =
     (\<lambda>uid. app_directory (field_or units_by_id uid filePath []))
       ` {uid \<in> members. has_slash (field_or units_by_id uid filePath [])}"

text \<open>
  The loops over the members that build dicts and lists visit them in the order of the
  sorted member list.
\<close>

fun kind_mix_loop :: "string list \<Rightarrow> (string \<times> unit) list \<Rightarrow> (string \<times> int) list \<Rightarrow> (string \<times> int) list" where
  "kind_mix_loop [] units_by_id kind_counts = kind_counts"
| "kind_mix_loop (uid # rest) units_by_id kind_counts =
     (let k = (case map_of units_by_id uid of
                 None \<Rightarrow> ''unknown''
               | Some u \<Rightarrow> (case kind u of None \<Rightarrow> ''unknown'' | Some x \<Rightarrow> x))
      in kind_mix_loop rest units_by_id (AList.update k (get_or kind_counts k 0 + 1) kind_counts))"

fun shared_callees_loop :: "string list \<Rightarrow> (string \<times> unit) list \<Rightarrow> (string \<times> nat) list \<Rightarrow> (string \<times> nat) list" where
  "shared_callees_loop [] units_by_id callee_counts = callee_counts"
| "shared_callees_loop (uid # rest) units_by_id callee_counts =
     shared_callees_loop rest units_by_id
       (snd (callee_docs_unit (field_or units_by_id uid callees []) ({}, callee_counts)))"

text \<open>The two loops over \<^verbatim>\<open>all_consumer_sets\<close>; the state is \<^verbatim>\<open>(consumer_overlap, overlap_count)\<close>.\<close>

fun overlap_inner :: "string set \<Rightarrow> string set list \<Rightarrow> real \<times> nat \<Rightarrow> real \<times> nat" where
  "overlap_inner a [] st = st"
| "overlap_inner a (b # rest) (consumer_overlap, overlap_count) =
     overlap_inner a rest
       (if a \<union> b \<noteq> {}
        then (consumer_overlap + real (card (a \<inter> b)) / real (card (a \<union> b)), overlap_count + 1)
        else (consumer_overlap, overlap_count))"

fun overlap_outer :: "string set list \<Rightarrow> real \<times> nat \<Rightarrow> real \<times> nat" where
  "overlap_outer [] st = st"
| "overlap_outer (a # rest) st = overlap_outer rest (overlap_inner a rest st)"

record enriched =
  members :: "string list"
  memberCount :: nat
  avgSimilarity :: real
  signalBreakdown :: "(string \<times> real) list"
  directorySpread :: nat
  kindMix :: "(string \<times> int) list"
  sharedCallees :: "string list"
  consumerOverlap :: real

definition enrich_cluster :: "string set \<Rightarrow> scored_pair list \<Rightarrow> (string \<times> unit) list \<Rightarrow> enriched" where
  "enrich_cluster mems scored_pairs units_by_id =
     (let member_list = sorted_list_of_set mems;
          weights = map score (filter (intra mems) scored_pairs);
          avg_similarity = (if weights \<noteq> [] then sum_list weights / real (length weights) else 0);
          signal_breakdown = get_signal_breakdown mems scored_pairs;
          directory_spread = card (cluster_directories mems units_by_id);
          kind_counts = kind_mix_loop member_list units_by_id [];
          callee_counts = shared_callees_loop member_list units_by_id [];
          threshold_count = real (card mems) / 2;
          shared_callees = sort (map fst (filter (\<lambda>(name, n). threshold_count < real n) callee_counts));
          all_consumer_sets = map (consumer_ids_of units_by_id) member_list;
          ov = overlap_outer all_consumer_sets (0, 0);
          consumer_overlap = (if 0 < snd ov then fst ov / real (snd ov) else fst ov)
      in \<lparr>members = member_list,
          memberCount = card mems,
          avgSimilarity = py_round avg_similarity 4,
          signalBreakdown = signal_breakdown,
          directorySpread = directory_spread,
          kindMix = kind_counts,
          sharedCallees = shared_callees,
          consumerOverlap = py_round consumer_overlap 4\<rparr>)"

record cluster = enriched +
  rankScore :: real
  cluster_id :: string

text \<open>\<^verbatim>\<open>f"cluster-{i + 1:03d}"\<close>: the decimal digits, padded with zeros to three places.\<close>

fun digits :: "nat \<Rightarrow> string" where
  "digits n = (if n < 10 then [char_of (48 + n)] else digits (n div 10) @ [char_of (48 + n mod 10)])"

definition pad3 :: "nat \<Rightarrow> string" where
  "pad3 n = replicate (3 - length (digits n)) CHR ''0'' @ digits n"

definition rank_score :: "enriched \<Rightarrow> real" where
  "rank_score c =
     (let member_count = real (memberCount c);
          avg_sim = avgSimilarity c;
          dir_spread = real (max (directorySpread c) 1);
          kind_bonus = (if 1 < length (kindMix c) then 1.2 else 1.0)
      in py_round (member_count * avg_sim * dir_spread * kind_bonus) 4)"

definition rank_clusters :: "enriched list \<Rightarrow> cluster list" where
  "rank_clusters clusters =
     (let ranked = sort_key (\<lambda>c. - rank_score c) clusters
      in map (\<lambda>(i, c). enriched.extend c \<lparr>rankScore = rank_score c, cluster_id = ''cluster-'' @ pad3 (i + 1)\<rparr>)
             (zip [0..<length ranked] ranked))"

definition compute_clusters ::
  "(graph \<Rightarrow> string set list) \<Rightarrow> (graph \<Rightarrow> string set list option) \<Rightarrow> scored_pair list \<Rightarrow> unit list \<Rightarrow> real
     \<Rightarrow> cluster list" where
  "compute_clusters components communities_of scored_pairs units threshold =
     (let units_by_id = build_units_by_id units [];
          G = build_graph scored_pairs threshold;
          communities = detect_communities components communities_of G;
          communities2 = filter (\<lambda>c. 2 \<le> card c) communities;
          clusters = map (\<lambda>community. enrich_cluster community scored_pairs units_by_id) communities2
      in rank_clusters clusters)"

subsection \<open>\<^verbatim>\<open>io_utils.py\<close>: writing an artifact\<close>

text \<open>
  The effect of \<^verbatim>\<open>write_artifact\<close> on the files, as the list of the operations it
  performs. \<^verbatim>\<open>json.dump\<close> writes the serialisation to the open file chunk by chunk; the
  chunks are given. A file system maps a path to the content of the file there.
\<close>

datatype fs_op =
    MakeDirs string
  | OpenTruncate string
  | WriteText string string
  | CloseFile string
  | Rename string string

definition write_artifact :: "string \<Rightarrow> string list \<Rightarrow> string \<Rightarrow> fs_op list" where
  "write_artifact name chunks output_dir =
     (let path = output_dir @ ''/'' @ name
      in [MakeDirs output_dir, OpenTruncate path] @ map (WriteText path) chunks @ [CloseFile path])"

fun apply_op :: "fs_op \<Rightarrow> (string \<rightharpoonup> string) \<Rightarrow> (string \<rightharpoonup> string)" where
  "apply_op (MakeDirs d) fs = fs"
| "apply_op (OpenTruncate p) fs = fs(p \<mapsto> [])"
| "apply_op (WriteText p txt) fs = fs(p \<mapsto> (case fs p of None \<Rightarrow> txt | Some old \<Rightarrow> old @ txt))"
| "apply_op (CloseFile p) fs = fs"
| "apply_op (Rename p q) fs = (case fs p of None \<Rightarrow> fs | Some c \<Rightarrow> (fs(p := None))(q \<mapsto> c))"

text \<open>The states another process can observe: the one before and the one after each operation.\<close>

fun observable :: "fs_op list \<Rightarrow> (string \<rightharpoonup> string) \<Rightarrow> (string \<rightharpoonup> string) list" where
  "observable [] fs = [fs]"
| "observable (op # ops) fs = fs # observable ops (apply_op op fs)"

subsection \<open>Views of the model used in the proofs\<close>

text \<open>
  \<open>base_table\<close> is the table of \<open>get_weights\<close> before signals are dropped,
  \<open>dropped_table\<close> the one before it is renormalised; \<open>both\<close> and \<open>hooks\<close> stand for
  \<^verbatim>\<open>is_both_components\<close> and \<^verbatim>\<open>has_hooks\<close>.
\<close>

definition base_table :: "bool \<Rightarrow> bool \<Rightarrow> (string \<times> real) list" where
  "base_table he hp =
     (if hp
      then AList.update ''structuralPattern'' 0.05
             (scale_values
                ((sum_values (if he then WEIGHTS_WITH_EMBEDDINGS else WEIGHTS_WITHOUT_EMBEDDINGS) - 0.05)
                 / sum_values (if he then WEIGHTS_WITH_EMBEDDINGS else WEIGHTS_WITHOUT_EMBEDDINGS))
                (if he then WEIGHTS_WITH_EMBEDDINGS else WEIGHTS_WITHOUT_EMBEDDINGS))
      else (if he then WEIGHTS_WITH_EMBEDDINGS else WEIGHTS_WITHOUT_EMBEDDINGS))"

definition dropped_table :: "bool \<Rightarrow> bool \<Rightarrow> bool \<Rightarrow> bool \<Rightarrow> (string \<times> real) list" where
  "dropped_table he hp both hooks =
     fold AList.delete
       ((if \<not> both then [''jsxStructure''] else []) @ (if \<not> hooks then [''hookProfile''] else []))
       (base_table he hp)"

text \<open>
  A value in \<open>[0, 1]\<close>; the names of the signals in the order in which the loop body
  stores them; a dict of weights none of which is negative.
\<close>

definition unit_interval :: "real \<Rightarrow> bool" where
  "unit_interval x = (0 \<le> x \<and> x \<le> 1)"

definition SIGNAL_ORDER :: "string list" where
  "SIGNAL_ORDER =
     [''semantic'', ''typeSignature'', ''jsxStructure'', ''hookProfile'', ''imports'', ''dataAccess'',
      ''behavior'', ''calleeSet'', ''callSequence'', ''consumerSet'', ''coOccurrence'', ''neighborhood'',
      ''structuralPattern'']"

definition nonneg_values :: "(string \<times> real) list \<Rightarrow> bool" where
  "nonneg_values d = (\<forall>kv \<in> set d. 0 \<le> snd kv)"

text \<open>
  The contribution of the key \<open>k\<close> to the dot product of two sparse vectors.
  \<open>sparse_vectors_ok arts uid\<close>: the three sparse vectors that the artifacts hold for
  \<open>uid\<close> are dicts, that is, no key occurs twice in the list that stands for one.
\<close>

definition prod_at :: "'k sparse \<Rightarrow> 'k sparse \<Rightarrow> 'k \<Rightarrow> real" where
  "prod_at a b k =
     (case map_of a k of
        None \<Rightarrow> 0
      | Some v \<Rightarrow> (case map_of b k of None \<Rightarrow> 0 | Some w \<Rightarrow> v * w))"

definition sparse_vectors_ok :: "artifacts \<Rightarrow> string \<Rightarrow> bool" where
  "sparse_vectors_ok arts uid =
     (distinct (map fst (field_or (fps arts) uid importConstellation []))
      \<and> distinct (map fst (field_or (cg arts) uid calleeSetVector []))
      \<and> distinct (map fst (field_or (dc arts) uid cooccurrenceVector [])))"

text \<open>Document counts that lie between 1 and \<open>m\<close>, the number of units counted so far.\<close>

definition counts_within :: "nat \<Rightarrow> (string \<times> nat) list \<Rightarrow> bool" where
  "counts_within m counts = (\<forall>kv \<in> set counts. 1 \<le> snd kv \<and> snd kv \<le> m)"

text \<open>
  The import sources and the callee targets that a unit contributes to the document
  counts (the empty string is skipped by both counting loops), and the number of units
  of a corpus that have the key \<open>k\<close>. \<open>multiples_of idf vec\<close>: every value that \<open>vec\<close>
  stores is the weight of its key in \<open>idf\<close>, added up once per occurrence.
\<close>

definition unit_sources :: "unit \<Rightarrow> string set" where
  "unit_sources u = {src \<in> set (map import_src (unit_imports u)). src \<noteq> []}"

definition unit_targets :: "unit \<Rightarrow> string set" where
  "unit_targets u = {t \<in> set (map callee_str (callees u)). t \<noteq> []}"

definition doc_freq :: "(unit \<Rightarrow> string set) \<Rightarrow> unit list \<Rightarrow> string \<Rightarrow> nat" where
  "doc_freq keys_of units k = length (filter (\<lambda>u. k \<in> keys_of u) units)"

definition multiples_of :: "string sparse \<Rightarrow> string sparse \<Rightarrow> bool" where
  "multiples_of idf vec =
     (\<forall>kv \<in> set vec. \<exists>m w. 1 \<le> m \<and> map_of idf (fst kv) = Some w \<and> snd kv = real m * w)"

subsection \<open>Inputs for the examples\<close>

text \<open>A unit that has an id, a kind and a file path, and no other field.\<close>

definition bare_unit :: "string \<Rightarrow> string option \<Rightarrow> string \<Rightarrow> unit" where
  "bare_unit uid k fp =
     \<lparr>unit_id = uid, kind = k, filePath = fp, parameters = None, props = None, returnType = None,
      jsxTree = None, hookCalls = [], unit_imports = [], storeAccess = [], dataSourceAccess = [],
      behaviorMarkers = (\<lambda>key. False), callees = [], calleeSequence = [], consumers = [],
      coOccurrences = CoDict [], consumerKinds = KindsDict [], consumerDirectories = DirsList [],
      consumerCount = None\<rparr>"

text \<open>
  A digest function for the examples: it prefixes a rendering of the value, and so is
  never empty, as a hexadecimal digest is never empty. \<open>unary_function uid fp pname\<close> is
  a unit of kind \<^verbatim>\<open>function\<close> with \<^verbatim>\<open>parameters=[{type:"string"}]\<close> (the parameter named
  or not), \<^verbatim>\<open>returnType:"number"\<close> and no other field.
\<close>

fun json_text :: "json \<Rightarrow> string" where
  "json_text JNull = ''null''"
| "json_text (JBool b) = (if b then ''true'' else ''false'')"
| "json_text (JInt i) = (if i < 0 then ''-'' else []) @ digits (nat \<bar>i\<bar>)"
| "json_text (JStr s) = [CHR 0x22] @ s @ [CHR 0x22]"
| "json_text (JArr xs) = ''['' @ concat (map (\<lambda>x. json_text x @ '','') xs) @ '']''"
| "json_text (JObj kvs) = ''{'' @ concat (map (\<lambda>(k, v). k @ '':'' @ json_text v @ '','') kvs) @ ''}''"

definition demo_digest :: "json \<Rightarrow> string" where
  "demo_digest j = ''sha256:'' @ json_text j"

definition unary_function :: "string \<Rightarrow> string \<Rightarrow> string option \<Rightarrow> unit" where
  "unary_function uid fp pname =
     (bare_unit uid (Some ''function'') fp)
       \<lparr>parameters := Some [Param pname (Some ''string'')], returnType := Some ''number''\<rparr>"

text \<open>
  The artifacts of a corpus of two such functions: the fingerprint, the type
  signature and the dependency context that each of them gets, and the signals of the
  pair.
\<close>

definition plain_fingerprint :: fingerprint where
  "plain_fingerprint =
     \<lparr>jsxHash = \<lparr>exact = None, fuzzy = None\<rparr>,
      hookProfile = [0, 0, 0, 0, 0, 0, 0, 0, 0, 0],
      importConstellation = [],
      behaviorFlags = [0, 0, 0, 0, 0, 0, 0, 0],
      dataAccessPattern = []\<rparr>"

definition unary_typesig :: "(json \<Rightarrow> string) \<Rightarrow> typesig" where
  "unary_typesig H =
     \<lparr>strict_hash = H (JObj [(''params'', JArr [JStr ''string'']), (''return'', JStr ''number'')]),
      loose_hash = H (JObj [(''arity'', JInt 1), (''has_array_param'', JBool False),
                            (''has_function_param'', JBool False), (''has_object_param'', JBool False),
                            (''has_void_return'', JBool False)]),
      canonical = ''(string) => number'',
      arity = 1\<rparr>"

definition plain_dep_context :: "(json \<Rightarrow> string) \<Rightarrow> dep_context" where
  "plain_dep_context H =
     \<lparr>consumerProfile = [0, 0, 0], cooccurrenceVector = [],
      neighborhoodHash_r1 = H (JArr []), neighborhoodHash_r2 = H (JArr [])\<rparr>"

definition two_function_artifacts :: "(json \<Rightarrow> string) \<Rightarrow> string \<Rightarrow> string \<Rightarrow> artifacts" where
  "two_function_artifacts H ida idb =
     \<lparr>fps = [(ida, plain_fingerprint), (idb, plain_fingerprint)],
      typesigs = [(ida, unary_typesig H), (idb, unary_typesig H)],
      cg = [(ida, \<lparr>calleeSetVector = [], sequenceHashes = []\<rparr>),
            (idb, \<lparr>calleeSetVector = [], sequenceHashes = []\<rparr>)],
      dc = [(ida, plain_dep_context H), (idb, plain_dep_context H)],
      embeddings = [],
      structural_patterns = []\<rparr>"

definition two_function_signals :: "(string \<times> real) list" where
  "two_function_signals =
     [(''typeSignature'', 1), (''imports'', 0), (''dataAccess'', 0), (''behavior'', 1),
      (''calleeSet'', 0), (''callSequence'', 0), (''consumerSet'', 0), (''coOccurrence'', 0),
      (''neighborhood'', 1)]"

text \<open>Artifacts in which two units share one import source of their import constellations.\<close>

definition import_example :: artifacts where
  "import_example =
     \<lparr>fps = [(''a.ts::f'', plain_fingerprint\<lparr>importConstellation := [(''react'', 1)]\<rparr>),
             (''b.ts::g'', plain_fingerprint\<lparr>importConstellation := [(''react'', 2), (''vue'', 1)]\<rparr>)],
      typesigs = [], cg = [], dc = [], embeddings = [], structural_patterns = []\<rparr>"

subsection \<open>The directory spread as the specification words it\<close>

text \<open>
  The specification: a file path containing the segment \<^verbatim>\<open>apps\<close> uses the immediately
  following segment, otherwise the first path segment; the spread counts the distinct
  directories over the members. (Where \<^verbatim>\<open>apps\<close> is the last segment nothing follows it,
  and \<open>spec_app_directory\<close> takes the first segment.)
\<close>

definition spec_app_directory :: "string \<Rightarrow> string" where
  "spec_app_directory fp =
     (let parts = split_on CHR ''/'' fp
      in case dropWhile (\<lambda>p. p \<noteq> ''apps'') parts of
           a # following # rest \<Rightarrow> following
         | _ \<Rightarrow> hd parts)"

definition spec_directory_spread :: "string set \<Rightarrow> (string \<times> unit) list \<Rightarrow> nat" where
  "spec_directory_spread mems units_by_id =
     card ((\<lambda>uid. spec_app_directory (field_or units_by_id uid filePath [])) ` mems)"

text \<open>
  What the code does instead where the first \<^verbatim>\<open>apps\<close> segment is the last segment of the
  path: it takes the path up to its last slash.
\<close>

definition apps_is_last :: "string \<Rightarrow> bool" where
  "apps_is_last fp = (dropWhile (\<lambda>p. p \<noteq> ''apps'') (split_on CHR ''/'' fp) = [''apps''])"

definition amended_directory :: "string \<Rightarrow> string" where
  "amended_directory fp = (if apps_is_last fp then rsplit1_head CHR ''/'' fp else spec_app_directory fp)"

subsection \<open>Atomic replacement as the specification words it\<close>

text \<open>
  The specification: the content is written to a temporary path, which is then renamed
  over the destination. \<open>writes_via_rename ops dest\<close> says so of a list of operations:
  it renames some other path to \<open>dest\<close>, and it neither truncates \<open>dest\<close> nor writes into it.
\<close>

definition writes_via_rename :: "fs_op list \<Rightarrow> string \<Rightarrow> bool" where
  "writes_via_rename ops dest =
     (list_ex (\<lambda>op. case op of Rename tmp d \<Rightarrow> d = dest \<and> tmp \<noteq> dest | _ \<Rightarrow> False) ops
      \<and> list_all (\<lambda>op. case op of OpenTruncate p \<Rightarrow> p \<noteq> dest | WriteText p txt \<Rightarrow> p \<noteq> dest | _ \<Rightarrow> True) ops)"

definition is_rename :: "fs_op \<Rightarrow> bool" where
  "is_rename op = (case op of Rename p q \<Rightarrow> True | _ \<Rightarrow> False)"

subsection \<open>The consumer profile as the specification words it\<close>

text \<open>
  The three inputs of the profile that \<open>consumer_profile\<close> computes on the way (the
  consumer count, the dict of kind counts, the number of distinct directories), and
  the three components as the specification gives them: \<open>min(1, consumerCount / 50)\<close>,
  the base-2 Shannon entropy of the distribution of the kinds (the kinds of positive
  count, each with its share of the total), and
  \<open>min(1, distinct_consumer_directories / max(consumerCount, 1))\<close>.
\<close>

definition consumer_count_of :: "unit \<Rightarrow> int" where
  "consumer_count_of u = (case consumerCount u of None \<Rightarrow> int (length (consumers u)) | Some n \<Rightarrow> n)"

definition kind_counts_of :: "unit \<Rightarrow> (string \<times> int) list" where
  "kind_counts_of u = (case consumerKinds u of KindsDict d \<Rightarrow> d | KindsList l \<Rightarrow> kind_counts_loop l [])"

definition distinct_dirs_of :: "unit \<Rightarrow> nat" where
  "distinct_dirs_of u =
     (case consumerDirectories u of
        DirsList l \<Rightarrow> card (set l)
      | DirsDict d \<Rightarrow> length d
      | DirsOther \<Rightarrow>
          card ((\<lambda>c. rsplit1_head CHR ''/'' (consumer_path c))
                 ` {c \<in> set (consumers u). has_slash (consumer_path c)}))"

definition spec_normalized_count :: "unit \<Rightarrow> real" where
  "spec_normalized_count u = min 1 (real_of_int (consumer_count_of u) / 50)"

definition spec_dir_spread :: "unit \<Rightarrow> real" where
  "spec_dir_spread u = min 1 (real (distinct_dirs_of u) / real_of_int (max (consumer_count_of u) 1))"

definition positive_counts :: "(string \<times> int) list \<Rightarrow> int list" where
  "positive_counts counts = filter (\<lambda>c. 0 < c) (map snd counts)"

definition spec_entropy :: "(string \<times> int) list \<Rightarrow> real" where
  "spec_entropy counts =
     (let t = sum_list (map snd counts)
      in - (\<Sum>c\<leftarrow>positive_counts counts. (real_of_int c / real_of_int t) * log 2 (real_of_int c / real_of_int t)))"

section \<open>Weight renormalisation\<close>

lemma sum_values_divide:
  "sum_values (divide_values t d) = sum_values d / t"
  by (induction d) (auto simp: sum_values_def divide_values_def add_divide_distrib)

lemma sum_values_scale:
  "sum_values (scale_values f d) = sum_values d * f"
  by (induction d) (auto simp: sum_values_def scale_values_def distrib_right)

lemma sum_values_with [simp]: "sum_values WEIGHTS_WITH_EMBEDDINGS = 1"
  by (simp add: sum_values_def WEIGHTS_WITH_EMBEDDINGS_def)

lemma sum_values_without [simp]: "sum_values WEIGHTS_WITHOUT_EMBEDDINGS = 1"
  by (simp add: sum_values_def WEIGHTS_WITHOUT_EMBEDDINGS_def)

lemma get_weights_dropped:
  "get_weights he hp ka kb =
     (let d = dropped_table he hp (ka = ''component'' \<and> kb = ''component'')
                (ka \<in> {''component'', ''hook''} \<and> kb \<in> {''component'', ''hook''})
      in if 0 < sum_values d then divide_values (sum_values d) d else d)"
  unfolding get_weights_def dropped_table_def base_table_def Let_def by (rule refl)

lemma dropped_table_positive: "0 < sum_values (dropped_table he hp both hooks)"
  by (cases he; cases hp; cases both; cases hooks;
      simp add: dropped_table_def base_table_def sum_values_def scale_values_def
        WEIGHTS_WITH_EMBEDDINGS_def WEIGHTS_WITHOUT_EMBEDDINGS_def AList.delete_eq)

lemma get_weights_total: "sum_values (get_weights he hp ka kb) = 1"
proof -
  define d where "d = dropped_table he hp (ka = ''component'' \<and> kb = ''component'')
                (ka \<in> {''component'', ''hook''} \<and> kb \<in> {''component'', ''hook''})"
  have pos: "0 < sum_values d"
    unfolding d_def by (rule dropped_table_positive)
  have "get_weights he hp ka kb = divide_values (sum_values d) d"
    using pos unfolding get_weights_dropped d_def Let_def by simp
  then show ?thesis
    using pos by (simp add: sum_values_divide)
qed

text \<open>
  C7. For every combination of \<open>has_embeddings\<close>, \<open>has_structural_patterns\<close> and the kinds
  of the two units, the weights that \<open>get_weights\<close> returns sum to 1 within \<open>1e-9\<close> (in
  exact arithmetic the sum is 1).
\<close>

theorem weights_sum_to_one:
  "\<bar>sum_values (get_weights has_embeddings has_structural_patterns kind_a kind_b) - 1\<bar> \<le> 1 / 10 ^ 9"
  by (simp add: get_weights_total)

theorem weights_sum_to_one_witness:
  "\<bar>sum_values (get_weights False True ''hook'' ''function'') - 1\<bar> \<le> 1 / 10 ^ 9"
  by (rule weights_sum_to_one)

section \<open>Clustering\<close>

lemma memberCount_enrich: "memberCount (enrich_cluster mems sp ubi) = card mems"
  by (simp add: enrich_cluster_def Let_def)

lemma members_enrich: "members (enrich_cluster mems sp ubi) = sorted_list_of_set mems"
  by (simp add: enrich_cluster_def Let_def)

text \<open>Ranking sorts the enriched clusters and extends each by its rank score and its id.\<close>

lemma rank_clusters_elem:
  assumes "c \<in> set (rank_clusters cs)"
  obtains e where "e \<in> set cs" and "memberCount c = memberCount e" and "members c = members e"
    and "avgSimilarity c = avgSimilarity e" and "consumerOverlap c = consumerOverlap e"
    and "directorySpread c = directorySpread e"
proof -
  from assms obtain i e
    where ie: "(i, e) \<in> set (zip [0..<length (sort_key (\<lambda>c. - rank_score c) cs)]
                                  (sort_key (\<lambda>c. - rank_score c) cs))"
      and c: "c = enriched.extend e \<lparr>rankScore = rank_score e, cluster_id = ''cluster-'' @ pad3 (i + 1)\<rparr>"
    by (auto simp: rank_clusters_def Let_def)
  from ie have "e \<in> set (sort_key (\<lambda>c. - rank_score c) cs)"
    by (rule set_zip_rightD)
  then have "e \<in> set cs" by simp
  then show thesis
    using c by (intro that [of e]) (simp_all add: enriched.extend_def)
qed

lemma length_rank_clusters: "length (rank_clusters cs) = length cs"
  by (simp add: rank_clusters_def Let_def)

lemma compute_clusters_elem:
  assumes "c \<in> set (compute_clusters components communities_of scored_pairs units threshold)"
  obtains community where "2 \<le> card community"
    and "memberCount c = memberCount (enrich_cluster community scored_pairs (build_units_by_id units []))"
    and "members c = members (enrich_cluster community scored_pairs (build_units_by_id units []))"
    and "avgSimilarity c = avgSimilarity (enrich_cluster community scored_pairs (build_units_by_id units []))"
    and "consumerOverlap c = consumerOverlap (enrich_cluster community scored_pairs (build_units_by_id units []))"
    and "directorySpread c = directorySpread (enrich_cluster community scored_pairs (build_units_by_id units []))"
proof -
  from assms obtain e
    where e: "e \<in> set (map (\<lambda>community. enrich_cluster community scored_pairs (build_units_by_id units []))
                (filter (\<lambda>c. 2 \<le> card c)
                   (detect_communities components communities_of (build_graph scored_pairs threshold))))"
      and eqs: "memberCount c = memberCount e" "members c = members e"
        "avgSimilarity c = avgSimilarity e" "consumerOverlap c = consumerOverlap e"
        "directorySpread c = directorySpread e"
    unfolding compute_clusters_def Let_def by (rule rank_clusters_elem)
  from e obtain community where "2 \<le> card community"
    and "e = enrich_cluster community scored_pairs (build_units_by_id units [])"
    by auto
  with eqs show thesis
    by (intro that [of community]) simp_all
qed

text \<open>
  C8. For every similarity matrix and threshold, whatever the library returns as the
  connected components and as the sub-communities of a large component, every cluster
  that \<open>compute_clusters\<close> writes has at least two members; its member list has as many
  entries as \<open>memberCount\<close> says.
\<close>

theorem clusters_have_two_members:
  "\<forall>c \<in> set (compute_clusters components communities_of scored_pairs units threshold).
     2 \<le> memberCount c \<and> length (members c) = memberCount c"
proof
  fix c
  assume "c \<in> set (compute_clusters components communities_of scored_pairs units threshold)"
  then obtain community where "2 \<le> card community"
    and "memberCount c = memberCount (enrich_cluster community scored_pairs (build_units_by_id units []))"
    and "members c = members (enrich_cluster community scored_pairs (build_units_by_id units []))"
    by (rule compute_clusters_elem)
  then show "2 \<le> memberCount c \<and> length (members c) = memberCount c"
    by (simp add: memberCount_enrich members_enrich)
qed

theorem clusters_have_two_members_witness:
  "length (compute_clusters (\<lambda>G. [{''a'', ''b''}, {''c''}]) (\<lambda>G. None)
       [\<lparr>unitA = ''a'', unitB = ''b'', score = 0.5, signals = [], dominantSignal = []\<rparr>] [] 0.35) = 1
   \<and> 2 \<le> memberCount (hd (compute_clusters (\<lambda>G. [{''a'', ''b''}, {''c''}]) (\<lambda>G. None)
       [\<lparr>unitA = ''a'', unitB = ''b'', score = 0.5, signals = [], dominantSignal = []\<rparr>] [] 0.35))"
proof -
  let ?cs = "compute_clusters (\<lambda>G. [{''a'', ''b''}, {''c''}]) (\<lambda>G. None)
       [\<lparr>unitA = ''a'', unitB = ''b'', score = 0.5, signals = [], dominantSignal = []\<rparr>] [] 0.35"
  have len: "length ?cs = 1"
    by (simp add: compute_clusters_def Let_def length_rank_clusters detect_communities_def)
  then have "hd ?cs \<in> set ?cs"
    by (cases ?cs) auto
  with clusters_have_two_members [of "\<lambda>G. [{''a'', ''b''}, {''c''}]" "\<lambda>G. None"
       "[\<lparr>unitA = ''a'', unitB = ''b'', score = 0.5, signals = [], dominantSignal = []\<rparr>]" "[]" "0.35"]
  have "2 \<le> memberCount (hd ?cs)" by blast
  with len show ?thesis by simp
qed

section \<open>Directory spread\<close>

lemma split_on_nonempty: "split_on c s \<noteq> []"
  by (induction s) (auto split: list.splits)

lemma dropWhile_index_of:
  "x \<in> set xs \<Longrightarrow> dropWhile (\<lambda>p. p \<noteq> x) xs = drop (index_of x xs) xs"
  by (induction xs) auto

lemma index_of_less: "x \<in> set xs \<Longrightarrow> index_of x xs < length xs"
  by (induction xs) auto

lemma nth_index_of: "x \<in> set xs \<Longrightarrow> xs ! index_of x xs = x"
  by (induction xs) auto

lemma dropWhile_absent: "x \<notin> set xs \<Longrightarrow> dropWhile (\<lambda>p. p \<noteq> x) xs = []"
  by (induction xs) auto

lemma app_directory_amended: "app_directory fp = amended_directory fp"
proof (cases "''apps'' \<in> set (split_on CHR ''/'' fp)")
  case False
  then show ?thesis
    using split_on_nonempty [of "CHR ''/''" fp]
    by (simp add: app_directory_def amended_directory_def apps_is_last_def spec_app_directory_def
        Let_def dropWhile_absent hd_conv_nth)
next
  case True
  let ?parts = "split_on CHR ''/'' fp"
  let ?i = "index_of ''apps'' ?parts"
  have dw: "dropWhile (\<lambda>p. p \<noteq> ''apps'') ?parts = drop ?i ?parts"
    using True by (rule dropWhile_index_of)
  have lt: "?i < length ?parts"
    using True by (rule index_of_less)
  have hd_eq: "?parts ! ?i = ''apps''"
    using True by (rule nth_index_of)
  show ?thesis
  proof (cases "?i + 1 < length ?parts")
    case True
    then have "drop ?i ?parts = ?parts ! ?i # ?parts ! (?i + 1) # drop (?i + 2) ?parts"
      using lt by (metis Cons_nth_drop_Suc Suc_eq_plus1 add_2_eq_Suc')
    then show ?thesis
      using True \<open>''apps'' \<in> set ?parts\<close> dw
      by (simp add: app_directory_def amended_directory_def apps_is_last_def spec_app_directory_def Let_def)
  next
    case False
    then have "Suc ?i = length ?parts" using lt by simp
    then have "drop ?i ?parts = [?parts ! ?i]"
      using lt by (metis Cons_nth_drop_Suc drop_all order_refl)
    then show ?thesis
      using False \<open>''apps'' \<in> set ?parts\<close> dw hd_eq
      by (simp add: app_directory_def amended_directory_def apps_is_last_def Let_def)
  qed
qed

text \<open>Evaluating a comprehension over an explicit finite set.\<close>

lemma Collect_mem_insert:
  "{x \<in> insert a A. P x} = (if P a then insert a {x \<in> A. P x} else {x \<in> A. P x})"
  by auto

lemma Collect_mem_empty: "{x \<in> {}. P x} = {}"
  by simp

text \<open>
  C9, as the claim states it, fails: two members whose file paths \<^verbatim>\<open>a.ts\<close> and \<^verbatim>\<open>b.ts\<close>
  have a single segment have two distinct first segments, and the code reports a
  spread of 0, since it skips every path without a slash.
\<close>

theorem directory_spread_counterexample:
  "directorySpread (enrich_cluster {''a'', ''b''} []
      [(''a'', bare_unit ''a'' None ''a.ts''), (''b'', bare_unit ''b'' None ''b.ts'')]) = 0
   \<and> spec_directory_spread {''a'', ''b''}
      [(''a'', bare_unit ''a'' None ''a.ts''), (''b'', bare_unit ''b'' None ''b.ts'')] = 2"
  by (simp add: enrich_cluster_def Let_def cluster_directories_def spec_directory_spread_def
      field_or_def bare_unit_def has_slash_def spec_app_directory_def)

text \<open>
  C9, amended. For every cluster, \<open>directorySpread\<close> is the number of distinct app-level
  directories over those members whose file path contains a slash; a member whose path
  has no slash (a single segment, the empty path of an unknown unit) is not counted.
  The directory of a counted path is the segment that follows its first \<^verbatim>\<open>apps\<close> segment,
  the first segment when it has no \<^verbatim>\<open>apps\<close> segment, and the path up to its last slash
  when \<^verbatim>\<open>apps\<close> is its last segment.
\<close>

theorem directory_spread_amended:
  "directorySpread (enrich_cluster mems scored_pairs units_by_id) =
     card ((\<lambda>uid. amended_directory (field_or units_by_id uid filePath []))
            ` {uid \<in> mems. has_slash (field_or units_by_id uid filePath [])})"
  by (simp add: enrich_cluster_def Let_def cluster_directories_def app_directory_amended)

theorem directory_spread_amended_witness:
  "directorySpread (enrich_cluster {''a'', ''b'', ''c''} []
      [(''a'', bare_unit ''a'' None ''apps/web/a.ts''), (''b'', bare_unit ''b'' None ''lib/apps''),
       (''c'', bare_unit ''c'' None ''c.ts'')]) = 2"
  unfolding directory_spread_amended Collect_mem_insert Collect_mem_empty
  by (simp add: field_or_def bare_unit_def has_slash_def
      amended_directory_def apps_is_last_def spec_app_directory_def rsplit1_head_def)

section \<open>Writing an artifact\<close>

lemma observable_nonempty: "observable ops fs \<noteq> []"
  by (cases ops) auto

lemma observable_append:
  "observable (xs @ ys) fs = butlast (observable xs fs) @ observable ys (fold apply_op xs fs)"
  by (induction xs arbitrary: fs) (auto simp: observable_nonempty)

lemma last_observable: "last (observable ops fs) = fold apply_op ops fs"
  by (induction ops arbitrary: fs) (auto simp: observable_nonempty)

lemma fold_writes:
  "fs p = Some acc \<Longrightarrow> fold apply_op (map (WriteText p) chunks) fs = fs(p \<mapsto> acc @ concat chunks)"
  by (induction chunks arbitrary: fs acc) auto

lemma observable_writes:
  assumes "fs p = Some acc" and "s \<in> set (observable (map (WriteText p) chunks) fs)"
  shows "\<exists>n\<le>length chunks. s = fs(p \<mapsto> acc @ concat (take n chunks))"
  using assms
proof (induction chunks arbitrary: fs acc)
  case Nil
  then show ?case by (auto simp: fun_upd_idem)
next
  case (Cons c cs)
  from Cons.prems(2) consider "s = fs"
    | "s \<in> set (observable (map (WriteText p) cs) (apply_op (WriteText p c) fs))"
    by auto
  then show ?case
  proof cases
    case 1
    then have "s = fs(p \<mapsto> acc @ concat (take 0 (c # cs)))"
      using Cons.prems(1) by (simp add: fun_upd_idem)
    then show ?thesis by blast
  next
    case 2
    have "apply_op (WriteText p c) fs p = Some (acc @ c)"
      using Cons.prems(1) by simp
    from Cons.IH [OF this 2] obtain n where n: "n \<le> length cs"
      and s: "s = (apply_op (WriteText p c) fs)(p \<mapsto> (acc @ c) @ concat (take n cs))"
      by blast
    have "s = fs(p \<mapsto> acc @ concat (take (Suc n) (c # cs)))"
      using s Cons.prems(1) by simp
    then show ?thesis
      using n by (intro exI [of _ "Suc n"]) simp
  qed
qed

lemma write_artifact_states:
  assumes "s \<in> set (observable (write_artifact name chunks output_dir) fs)"
  shows "s = fs \<or> (\<exists>n\<le>length chunks. s = fs(output_dir @ ''/'' @ name \<mapsto> concat (take n chunks)))"
proof -
  let ?p = "output_dir @ ''/'' @ name"
  let ?fs1 = "fs(?p \<mapsto> [])"
  have obs: "observable (write_artifact name chunks output_dir) fs =
      fs # fs # butlast (observable (map (WriteText ?p) chunks) ?fs1)
        @ observable [CloseFile ?p] (fold apply_op (map (WriteText ?p) chunks) ?fs1)"
    by (simp add: write_artifact_def Let_def observable_append)
  have fin: "fold apply_op (map (WriteText ?p) chunks) ?fs1 = fs(?p \<mapsto> concat chunks)"
    using fold_writes [of ?fs1 ?p "[]" chunks] by simp
  from assms consider "s = fs"
    | "s \<in> set (butlast (observable (map (WriteText ?p) chunks) ?fs1))"
    | "s = fs(?p \<mapsto> concat chunks)"
    unfolding obs fin by auto
  then show ?thesis
  proof cases
    case 1
    then show ?thesis by simp
  next
    case 2
    then have "s \<in> set (observable (map (WriteText ?p) chunks) ?fs1)"
      by (rule in_set_butlastD)
    from observable_writes [OF _ this, of "[]"] show ?thesis
      by auto
  next
    case 3
    then have "s = fs(?p \<mapsto> concat (take (length chunks) chunks))" by simp
    then show ?thesis by blast
  qed
qed

lemma write_artifact_final:
  "last (observable (write_artifact name chunks output_dir) fs) = fs(output_dir @ ''/'' @ name \<mapsto> concat chunks)"
  using fold_writes [of "fs(output_dir @ ''/'' @ name \<mapsto> [])" "output_dir @ ''/'' @ name" "[]" chunks]
  by (simp add: last_observable write_artifact_def Let_def observable_nonempty)

text \<open>
  C4, as the claim states it, fails: \<open>write_artifact\<close> opens the destination itself, so
  it renames nothing, and while it rewrites \<^verbatim>\<open>out/clusters.json\<close> from \<^verbatim>\<open>[1]\<close> to \<^verbatim>\<open>[]\<close>,
  the path first holds the empty file and then the partial content \<^verbatim>\<open>[\<close>.
\<close>

theorem write_artifact_counterexample:
  "\<not> writes_via_rename (write_artifact ''clusters.json'' [''['', '']''] ''out'') ''out/clusters.json''
   \<and> map (\<lambda>s. s ''out/clusters.json'')
        (observable (write_artifact ''clusters.json'' [''['', '']''] ''out'')
           [''out/clusters.json'' \<mapsto> ''[1]''])
     = [Some ''[1]'', Some ''[1]'', Some [], Some ''['', Some ''[]'', Some ''[]'']"
  by (simp add: write_artifact_def writes_via_rename_def Let_def)

text \<open>
  C4, amended. \<open>write_artifact\<close> writes in place: it makes the output directory, opens
  the destination itself (which truncates it), writes the serialisation there chunk by
  chunk and closes it; it uses no temporary path and no rename. When it is done the
  destination holds the whole serialisation and every other file is as before. On the
  way every observable state is the old file system or has a prefix of the
  serialisation at the destination; the state with the empty destination is among them,
  so the replacement is not atomic.
\<close>

theorem write_artifact_in_place:
  "\<not> list_ex is_rename (write_artifact name chunks output_dir)
   \<and> \<not> writes_via_rename (write_artifact name chunks output_dir) (output_dir @ ''/'' @ name)
   \<and> last (observable (write_artifact name chunks output_dir) fs)
       = fs(output_dir @ ''/'' @ name \<mapsto> concat chunks)
   \<and> (\<forall>s \<in> set (observable (write_artifact name chunks output_dir) fs).
         s = fs \<or> (\<exists>n\<le>length chunks. s = fs(output_dir @ ''/'' @ name \<mapsto> concat (take n chunks))))
   \<and> fs(output_dir @ ''/'' @ name \<mapsto> []) \<in> set (observable (write_artifact name chunks output_dir) fs)"
proof (intro conjI ballI)
  show "\<not> list_ex is_rename (write_artifact name chunks output_dir)"
    by (simp add: write_artifact_def Let_def is_rename_def list_ex_iff image_iff)
  show "\<not> writes_via_rename (write_artifact name chunks output_dir) (output_dir @ ''/'' @ name)"
    by (simp add: write_artifact_def Let_def writes_via_rename_def)
  show "last (observable (write_artifact name chunks output_dir) fs)
       = fs(output_dir @ ''/'' @ name \<mapsto> concat chunks)"
    by (rule write_artifact_final)
  show "fs(output_dir @ ''/'' @ name \<mapsto> []) \<in> set (observable (write_artifact name chunks output_dir) fs)"
    by (cases chunks) (simp_all add: write_artifact_def Let_def)
next
  fix s
  assume "s \<in> set (observable (write_artifact name chunks output_dir) fs)"
  then show "s = fs \<or> (\<exists>n\<le>length chunks. s = fs(output_dir @ ''/'' @ name \<mapsto> concat (take n chunks)))"
    by (rule write_artifact_states)
qed

theorem write_artifact_in_place_witness:
  "last (observable (write_artifact ''clusters.json'' [''['', '']''] ''out'') [''out/clusters.json'' \<mapsto> ''[1]''])
     ''out/clusters.json'' = Some ''[]''
   \<and> [''out/clusters.json'' \<mapsto> ''[1]'', ''out/clusters.json'' \<mapsto> []]
       \<in> set (observable (write_artifact ''clusters.json'' [''['', '']''] ''out'') [''out/clusters.json'' \<mapsto> ''[1]''])"
  using write_artifact_in_place [of "''clusters.json''" "[''['', '']'']" "''out''" "[''out/clusters.json'' \<mapsto> ''[1]'']"]
  by simp

section \<open>Sparse vectors\<close>

lemma set_update_cases:
  "kv \<in> set (AList.update k v al) \<Longrightarrow> kv = (k, v) \<or> kv \<in> set al"
  by (induction al) (auto split: if_splits)

lemma get_or_cases: "get_or d k dflt = dflt \<or> (k, get_or d k dflt) \<in> set d"
  by (auto simp: get_or_def split: option.splits dest: map_of_SomeD)

lemma access_loop_positive:
  "\<forall>kv \<in> set vec. 1 \<le> snd kv \<Longrightarrow> \<forall>kv \<in> set (access_loop prefix as vec). 1 \<le> snd kv"
proof (induction as arbitrary: vec)
  case Nil
  then show ?case by simp
next
  case (Cons a as)
  let ?k = "prefix @ access_str a"
  have "0 \<le> get_or vec ?k 0"
    using get_or_cases [of vec ?k 0] Cons.prems by force
  then have "\<forall>kv \<in> set (AList.update ?k (get_or vec ?k 0 + 1) vec). 1 \<le> snd kv"
    using Cons.prems by (auto dest!: set_update_cases)
  then show ?case
    using Cons.IH Cons.prems by (simp add: Let_def)
qed

lemma data_access_pattern_positive: "\<forall>kv \<in> set (data_access_pattern u). 1 \<le> snd kv"
  unfolding data_access_pattern_def
  by (intro access_loop_positive) simp

lemma count_docs_within:
  assumes "distinct srcs" and "\<forall>kv \<in> set counts. 1 \<le> snd kv \<and> (if fst kv \<in> set done then snd kv \<le> Suc m else snd kv \<le> m)"
    and "set done \<inter> set srcs = {}"
  shows "\<forall>kv \<in> set (count_docs srcs counts). 1 \<le> snd kv \<and> snd kv \<le> Suc m"
  using assms
proof (induction srcs arbitrary: counts "done")
  case Nil
  then show ?case by (auto split: if_splits)
next
  case (Cons s srcs)
  let ?c = "AList.update s (get_or counts s 0 + 1) counts"
  have s_notdone: "s \<notin> set done" using Cons.prems(3) by auto
  have "get_or counts s 0 \<le> m"
    using get_or_cases [of counts s 0] Cons.prems(2) s_notdone by force
  then have inv: "\<forall>kv \<in> set ?c. 1 \<le> snd kv \<and> (if fst kv \<in> set (s # done) then snd kv \<le> Suc m else snd kv \<le> m)"
    using Cons.prems(2) by (auto dest!: set_update_cases split: if_splits)
  have "\<forall>kv \<in> set (count_docs srcs ?c). 1 \<le> snd kv \<and> snd kv \<le> Suc m"
    using Cons.prems(1,3) by (intro Cons.IH [OF _ inv]) auto
  then show ?case by simp
qed

lemma source_doc_counts_within:
  "counts_within m counts \<Longrightarrow> counts_within (m + length units) (source_doc_counts units counts)"
proof (induction units arbitrary: counts m)
  case Nil
  then show ?case by simp
next
  case (Cons u us)
  let ?srcs = "remdups (filter (\<lambda>src. src \<noteq> []) (map import_src (unit_imports u)))"
  have "counts_within (Suc m) (count_docs ?srcs counts)"
    unfolding counts_within_def
    using Cons.prems by (intro count_docs_within [where ?done = "[]"]) (auto simp: counts_within_def)
  from Cons.IH [OF this] show ?case by simp
qed

lemma callee_docs_unit_within:
  assumes "\<forall>kv \<in> set counts. 1 \<le> snd kv \<and> (if fst kv \<in> seen then snd kv \<le> Suc m else snd kv \<le> m)"
  shows "\<forall>kv \<in> set (snd (callee_docs_unit cs (seen, counts))). 1 \<le> snd kv \<and> snd kv \<le> Suc m"
  using assms
proof (induction cs arbitrary: seen counts)
  case Nil
  then show ?case by (auto split: if_splits)
next
  case (Cons c cs)
  let ?t = "callee_str c"
  show ?case
  proof (cases "?t \<noteq> [] \<and> ?t \<notin> seen")
    case True
    let ?c = "AList.update ?t (get_or counts ?t 0 + 1) counts"
    have "get_or counts ?t 0 \<le> m"
      using get_or_cases [of counts ?t 0] Cons.prems True by force
    then have inv: "\<forall>kv \<in> set ?c. 1 \<le> snd kv \<and> (if fst kv \<in> insert ?t seen then snd kv \<le> Suc m else snd kv \<le> m)"
      using Cons.prems by (auto dest!: set_update_cases split: if_splits)
    from Cons.IH [OF inv] show ?thesis
      using True by (simp add: Let_def)
  next
    case False
    then show ?thesis
      using Cons.IH [OF Cons.prems] by (auto simp: Let_def)
  qed
qed

lemma callee_doc_counts_within:
  "counts_within m counts \<Longrightarrow> counts_within (m + length units) (callee_doc_counts units counts)"
proof (induction units arbitrary: counts m)
  case Nil
  then show ?case by simp
next
  case (Cons u us)
  have "counts_within (Suc m) (snd (callee_docs_unit (callees u) ({}, counts)))"
    unfolding counts_within_def
    using Cons.prems by (intro callee_docs_unit_within) (auto simp: counts_within_def)
  from Cons.IH [OF this] show ?case by simp
qed

lemma idf_of_counts_nonneg:
  assumes "counts_within n counts"
  shows "\<forall>kv \<in> set (idf_of_counts n counts). 0 \<le> snd kv"
proof
  fix kv
  assume "kv \<in> set (idf_of_counts n counts)"
  then obtain k c where kc: "(k, c) \<in> set counts" and kv: "kv = (k, ln (real n / real c))"
    by (auto simp: idf_of_counts_def)
  from assms kc have "1 \<le> c" "c \<le> n"
    by (auto simp: counts_within_def)
  then have "1 \<le> real n / real c"
    by (simp add: le_divide_eq)
  then show "0 \<le> snd kv"
    using kv by simp
qed

lemma compute_idf_nonneg: "\<forall>kv \<in> set (compute_idf units). 0 \<le> snd kv"
proof (cases "units = []")
  case True
  then show ?thesis by (simp add: compute_idf_def)
next
  case False
  have "counts_within (0 + length units) (source_doc_counts units [])"
    by (rule source_doc_counts_within) (simp add: counts_within_def)
  then show ?thesis
    using False idf_of_counts_nonneg by (simp add: compute_idf_def Let_def)
qed

lemma compute_callee_idf_nonneg: "\<forall>kv \<in> set (compute_callee_idf units). 0 \<le> snd kv"
proof (cases "units = []")
  case True
  then show ?thesis by (simp add: compute_callee_idf_def)
next
  case False
  have "counts_within (0 + length units) (callee_doc_counts units [])"
    by (rule callee_doc_counts_within) (simp add: counts_within_def)
  then show ?thesis
    using False idf_of_counts_nonneg by (simp add: compute_callee_idf_def Let_def)
qed

lemma import_constellation_loop_nonneg:
  assumes "\<forall>kv \<in> set idf. 0 \<le> snd kv" and "\<forall>kv \<in> set vec. 0 \<le> snd kv"
  shows "\<forall>kv \<in> set (import_constellation_loop imps idf vec). 0 \<le> snd kv"
  using assms(2)
proof (induction imps arbitrary: vec)
  case Nil
  then show ?case by simp
next
  case (Cons imp imps)
  let ?s = "import_src imp"
  show ?case
  proof (cases "map_of idf ?s")
    case None
    then show ?thesis using Cons by (simp add: Let_def)
  next
    case (Some w)
    then have w: "0 \<le> w"
      using assms(1) by (auto dest!: map_of_SomeD)
    have "0 \<le> get_or vec ?s 0"
      using get_or_cases [of vec ?s 0] Cons.prems by force
    with w have "\<forall>kv \<in> set (AList.update ?s (get_or vec ?s 0 + w) vec). 0 \<le> snd kv"
      using Cons.prems by (auto dest!: set_update_cases)
    then show ?thesis
      using Some Cons by (simp add: Let_def)
  qed
qed

lemma callee_set_vector_loop_nonneg:
  assumes "\<forall>kv \<in> set idf. 0 \<le> snd kv" and "\<forall>kv \<in> set vec. 0 \<le> snd kv"
  shows "\<forall>kv \<in> set (callee_set_vector_loop cs idf vec). 0 \<le> snd kv"
  using assms(2)
proof (induction cs arbitrary: vec)
  case Nil
  then show ?case by simp
next
  case (Cons c cs)
  let ?s = "callee_str c"
  show ?case
  proof (cases "map_of idf ?s")
    case None
    then show ?thesis using Cons by (simp add: Let_def)
  next
    case (Some w)
    then have w: "0 \<le> w"
      using assms(1) by (auto dest!: map_of_SomeD)
    have "0 \<le> get_or vec ?s 0"
      using get_or_cases [of vec ?s 0] Cons.prems by force
    with w have "\<forall>kv \<in> set (AList.update ?s (get_or vec ?s 0 + w) vec). 0 \<le> snd kv"
      using Cons.prems by (auto dest!: set_update_cases)
    then show ?thesis
      using Some Cons by (simp add: Let_def)
  qed
qed

lemma get_or_update: "get_or (AList.update k v d) k' dflt = (if k' = k then v else get_or d k' dflt)"
  by (simp add: get_or_def update_conv')

lemma count_docs_get:
  "distinct srcs \<Longrightarrow>
     get_or (count_docs srcs counts) k 0 = get_or counts k 0 + (if k \<in> set srcs then 1 else 0)"
  by (induction srcs arbitrary: counts) (auto simp: get_or_update)

lemma source_doc_counts_get:
  "get_or (source_doc_counts units counts) k 0 = get_or counts k 0 + doc_freq unit_sources units k"
proof (induction units arbitrary: counts)
  case Nil
  then show ?case by (simp add: doc_freq_def)
next
  case (Cons u us)
  let ?srcs = "remdups (filter (\<lambda>src. src \<noteq> []) (map import_src (unit_imports u)))"
  have "set ?srcs = unit_sources u"
    by (auto simp: unit_sources_def)
  then have "get_or (count_docs ?srcs counts) k 0 = get_or counts k 0 + (if k \<in> unit_sources u then 1 else 0)"
    using count_docs_get [of ?srcs counts k] by simp
  then show ?case
    using Cons.IH [of "count_docs ?srcs counts"] by (simp add: doc_freq_def)
qed

lemma callee_docs_unit_get:
  "get_or (snd (callee_docs_unit cs (seen, counts))) k 0
     = get_or counts k 0 + (if k \<in> set (map callee_str cs) \<and> k \<noteq> [] \<and> k \<notin> seen then 1 else 0)"
proof (induction cs arbitrary: seen counts)
  case Nil
  then show ?case by simp
next
  case (Cons c cs)
  show ?case
  proof (cases "callee_str c \<noteq> [] \<and> callee_str c \<notin> seen")
    case True
    then show ?thesis
      using Cons.IH [of "insert (callee_str c) seen"
          "AList.update (callee_str c) (get_or counts (callee_str c) 0 + 1) counts"]
      by (auto simp: Let_def get_or_update)
  next
    case False
    then show ?thesis
      using Cons.IH [of seen counts] by (auto simp: Let_def)
  qed
qed

lemma callee_doc_counts_get:
  "get_or (callee_doc_counts units counts) k 0 = get_or counts k 0 + doc_freq unit_targets units k"
proof (induction units arbitrary: counts)
  case Nil
  then show ?case by (simp add: doc_freq_def)
next
  case (Cons u us)
  have "get_or (snd (callee_docs_unit (callees u) ({}, counts))) k 0
      = get_or counts k 0 + (if k \<in> unit_targets u then 1 else 0)"
    using callee_docs_unit_get [of "callees u" "{}" counts k]
    by (auto simp: unit_targets_def)
  then show ?case
    using Cons.IH [of "snd (callee_docs_unit (callees u) ({}, counts))"] by (simp add: doc_freq_def)
qed

lemma idf_of_counts_lookup:
  "map_of (idf_of_counts n counts) k = map_option (\<lambda>c. ln (real n / real c)) (map_of counts k)"
  by (induction counts) (auto simp: idf_of_counts_def)

lemma length_filter_all: "length (filter P xs) = length xs \<longleftrightarrow> (\<forall>x \<in> set xs. P x)"
proof (induction xs)
  case Nil
  then show ?case by simp
next
  case (Cons x xs)
  have "length (filter P xs) \<noteq> Suc (length xs)"
    using length_filter_le [of P xs] by arith
  then show ?case using Cons by simp
qed

lemma idf_weight_zero:
  assumes within: "counts_within (length units) counts"
    and freq: "\<And>k. get_or counts k 0 = doc_freq keys_of units k"
    and w: "map_of (idf_of_counts (length units) counts) k = Some w"
  shows "w = 0 \<longleftrightarrow> (\<forall>u \<in> set units. k \<in> keys_of u)"
proof -
  from w obtain c where c: "map_of counts k = Some c" and wc: "w = ln (real (length units) / real c)"
    by (auto simp: idf_of_counts_lookup)
  from c have "(k, c) \<in> set counts" by (rule map_of_SomeD)
  with within have c1: "1 \<le> c" "c \<le> length units"
    by (auto simp: counts_within_def)
  have "c = doc_freq keys_of units k"
    using freq [of k] c by (simp add: get_or_def)
  then have all: "c = length units \<longleftrightarrow> (\<forall>u \<in> set units. k \<in> keys_of u)"
    by (simp add: doc_freq_def length_filter_all)
  have pos: "0 < length units" "0 < c"
    using c1 by arith+
  then have "0 < real (length units) / real c"
    by simp
  then have "w = 0 \<longleftrightarrow> real (length units) / real c = 1"
    unfolding wc by (simp add: ln_eq_zero_iff)
  also have "\<dots> \<longleftrightarrow> c = length units"
    using c1 by (auto simp: divide_eq_1_iff)
  finally show ?thesis
    using all by simp
qed


lemma multiples_of_update:
  assumes "multiples_of idf vec" and "map_of idf k = Some w"
  shows "multiples_of idf (AList.update k (get_or vec k 0 + w) vec)"
  unfolding multiples_of_def
proof
  fix kv
  assume "kv \<in> set (AList.update k (get_or vec k 0 + w) vec)"
  then consider "kv = (k, get_or vec k 0 + w)" | "kv \<in> set vec"
    by (auto dest!: set_update_cases)
  then show "\<exists>m w. 1 \<le> m \<and> map_of idf (fst kv) = Some w \<and> snd kv = real m * w"
  proof cases
    case 1
    show ?thesis
    proof (cases "map_of vec k")
      case None
      then have "snd kv = real 1 * w" using 1 by (simp add: get_or_def)
      then show ?thesis using assms(2) 1 by (intro exI [of _ 1] exI [of _ w]) simp
    next
      case (Some x)
      then have "(k, x) \<in> set vec" by (rule map_of_SomeD)
      with assms obtain m where m: "1 \<le> m" "x = real m * w"
        by (fastforce simp: multiples_of_def)
      have "snd kv = real (Suc m) * w"
        using 1 Some m by (simp add: get_or_def algebra_simps)
      then show ?thesis using assms(2) 1 by (intro exI [of _ "Suc m"] exI [of _ w]) simp
    qed
  next
    case 2
    then show ?thesis using assms(1) by (simp add: multiples_of_def)
  qed
qed

lemma import_constellation_loop_multiples:
  "multiples_of idf vec \<Longrightarrow> multiples_of idf (import_constellation_loop imps idf vec)"
proof (induction imps arbitrary: vec)
  case Nil
  then show ?case by simp
next
  case (Cons imp imps)
  show ?case
  proof (cases "map_of idf (import_src imp)")
    case None
    then show ?thesis using Cons by (simp add: Let_def)
  next
    case (Some w)
    then show ?thesis
      using Cons.IH [OF multiples_of_update [OF Cons.prems Some]] Cons.IH [OF Cons.prems]
      by (simp add: Let_def)
  qed
qed

lemma callee_set_vector_loop_multiples:
  "multiples_of idf vec \<Longrightarrow> multiples_of idf (callee_set_vector_loop cs idf vec)"
proof (induction cs arbitrary: vec)
  case Nil
  then show ?case by simp
next
  case (Cons c cs)
  show ?case
  proof (cases "map_of idf (callee_str c)")
    case None
    then show ?thesis using Cons by (simp add: Let_def)
  next
    case (Some w)
    then show ?thesis
      using Cons.IH [OF multiples_of_update [OF Cons.prems Some]] Cons.IH [OF Cons.prems]
      by (simp add: Let_def)
  qed
qed

lemma import_constellation_zero:
  assumes "kv \<in> set (import_constellation u (compute_idf units))"
  shows "snd kv = 0 \<longleftrightarrow> (\<forall>u' \<in> set units. fst kv \<in> unit_sources u')"
proof -
  have "multiples_of (compute_idf units) (import_constellation u (compute_idf units))"
    unfolding import_constellation_def
    by (rule import_constellation_loop_multiples) (simp add: multiples_of_def)
  with assms obtain m w where m: "1 \<le> m"
    and w: "map_of (compute_idf units) (fst kv) = Some w" and v: "snd kv = real m * w"
    unfolding multiples_of_def by blast
  from w have ne: "units \<noteq> []" by (auto simp: compute_idf_def)
  then have w': "map_of (idf_of_counts (length units) (source_doc_counts units [])) (fst kv) = Some w"
    using w by (simp add: compute_idf_def Let_def)
  have within: "counts_within (length units) (source_doc_counts units [])"
    using source_doc_counts_within [of 0 "[]" units] by (simp add: counts_within_def)
  have "w = 0 \<longleftrightarrow> (\<forall>u' \<in> set units. fst kv \<in> unit_sources u')"
    using within _ w'
  proof (rule idf_weight_zero)
    show "get_or (source_doc_counts units []) k 0 = doc_freq unit_sources units k" for k
      using source_doc_counts_get [of units "[]" k] by (simp add: get_or_def)
  qed
  then show ?thesis
    using m v by simp
qed

lemma callee_set_vector_zero:
  assumes "kv \<in> set (callee_set_vector u (compute_callee_idf units))"
  shows "snd kv = 0 \<longleftrightarrow> (\<forall>u' \<in> set units. fst kv \<in> unit_targets u')"
proof -
  have "multiples_of (compute_callee_idf units) (callee_set_vector u (compute_callee_idf units))"
    unfolding callee_set_vector_def
    by (rule callee_set_vector_loop_multiples) (simp add: multiples_of_def)
  with assms obtain m w where m: "1 \<le> m"
    and w: "map_of (compute_callee_idf units) (fst kv) = Some w" and v: "snd kv = real m * w"
    unfolding multiples_of_def by blast
  from w have ne: "units \<noteq> []" by (auto simp: compute_callee_idf_def)
  then have w': "map_of (idf_of_counts (length units) (callee_doc_counts units [])) (fst kv) = Some w"
    using w by (simp add: compute_callee_idf_def Let_def)
  have within: "counts_within (length units) (callee_doc_counts units [])"
    using callee_doc_counts_within [of 0 "[]" units] by (simp add: counts_within_def)
  have "w = 0 \<longleftrightarrow> (\<forall>u' \<in> set units. fst kv \<in> unit_targets u')"
    using within _ w'
  proof (rule idf_weight_zero)
    show "get_or (callee_doc_counts units []) k 0 = doc_freq unit_targets units k" for k
      using callee_doc_counts_get [of units "[]" k] by (simp add: get_or_def)
  qed
  then show ?thesis
    using m v by simp
qed

text \<open>
  C3, as the claim states it, fails: in a corpus of one unit that imports \<^verbatim>\<open>react\<close> the
  source has the weight \<open>ln (1 / 1) = 0\<close>, and \<open>import_constellation\<close> stores it; the
  same holds of a callee, and \<open>cooccurrence_vector\<close> stores a ratio of 0 as it finds it.
\<close>

theorem sparse_vectors_counterexample:
  "import_constellation
      ((bare_unit ''a'' None ''a.ts'')\<lparr>unit_imports := [ImportRec (Some ''react'')]\<rparr>)
      (compute_idf [(bare_unit ''a'' None ''a.ts'')\<lparr>unit_imports := [ImportRec (Some ''react'')]\<rparr>])
     = [(''react'', 0)]
   \<and> callee_set_vector
      ((bare_unit ''a'' None ''a.ts'')\<lparr>callees := [CalleeRec ''fetch'']\<rparr>)
      (compute_callee_idf [(bare_unit ''a'' None ''a.ts'')\<lparr>callees := [CalleeRec ''fetch'']\<rparr>])
     = [(''fetch'', 0)]
   \<and> cooccurrence_vector ((bare_unit ''a'' None ''a.ts'')\<lparr>coOccurrences := CoDict [(''b'', CoNum 0)]\<rparr>)
     = [(''b'', 0)]"
  by (simp add: import_constellation_def compute_idf_def idf_of_counts_def bare_unit_def import_src_def
      get_or_def callee_set_vector_def compute_callee_idf_def callee_str_def cooccurrence_vector_def Let_def)

text \<open>
  C3, amended. \<open>data_access_pattern\<close> stores no zero: every value is an occurrence count
  of at least 1. \<open>import_constellation\<close> and \<open>callee_set_vector\<close>, over the weights of
  any corpus, store no negative value, and they store a zero for exactly the keys that
  every unit of the corpus has (an import source that all units import, a callee target
  that all units call); \<open>cooccurrence_vector\<close> stores the values of its input
  unfiltered.
\<close>

theorem sparse_vectors_amended:
  "(\<forall>kv \<in> set (data_access_pattern u). 1 \<le> snd kv)
   \<and> (\<forall>kv \<in> set (import_constellation u (compute_idf units)).
         0 \<le> snd kv \<and> (snd kv = 0 \<longleftrightarrow> (\<forall>u' \<in> set units. fst kv \<in> unit_sources u')))
   \<and> (\<forall>kv \<in> set (callee_set_vector u (compute_callee_idf units)).
         0 \<le> snd kv \<and> (snd kv = 0 \<longleftrightarrow> (\<forall>u' \<in> set units. fst kv \<in> unit_targets u')))"
proof (intro conjI)
  show "\<forall>kv \<in> set (data_access_pattern u). 1 \<le> snd kv"
    by (rule data_access_pattern_positive)
  have "\<forall>kv \<in> set (import_constellation u (compute_idf units)). 0 \<le> snd kv"
    unfolding import_constellation_def
    by (rule import_constellation_loop_nonneg [OF compute_idf_nonneg]) simp
  then show "\<forall>kv \<in> set (import_constellation u (compute_idf units)).
      0 \<le> snd kv \<and> (snd kv = 0 \<longleftrightarrow> (\<forall>u' \<in> set units. fst kv \<in> unit_sources u'))"
    using import_constellation_zero by blast
  have "\<forall>kv \<in> set (callee_set_vector u (compute_callee_idf units)). 0 \<le> snd kv"
    unfolding callee_set_vector_def
    by (rule callee_set_vector_loop_nonneg [OF compute_callee_idf_nonneg]) simp
  then show "\<forall>kv \<in> set (callee_set_vector u (compute_callee_idf units)).
      0 \<le> snd kv \<and> (snd kv = 0 \<longleftrightarrow> (\<forall>u' \<in> set units. fst kv \<in> unit_targets u'))"
    using callee_set_vector_zero by blast
qed

theorem sparse_vectors_amended_witness:
  "data_access_pattern ((bare_unit ''a'' None ''a.ts'')\<lparr>storeAccess := [AccessRec ''cart'', AccessRec ''cart'']\<rparr>)
     = [(''store:cart'', 2)]
   \<and> 1 \<le> snd (hd (data_access_pattern ((bare_unit ''a'' None ''a.ts'')\<lparr>storeAccess := [AccessRec ''cart'', AccessRec ''cart'']\<rparr>)))"
proof -
  let ?u = "(bare_unit ''a'' None ''a.ts'')\<lparr>storeAccess := [AccessRec ''cart'', AccessRec ''cart'']\<rparr>"
  have ev: "data_access_pattern ?u = [(''store:cart'', 2)]"
    by (simp add: data_access_pattern_def bare_unit_def access_str_def get_or_def Let_def)
  then have "hd (data_access_pattern ?u) \<in> set (data_access_pattern ?u)" by simp
  with sparse_vectors_amended [of ?u "[?u]"] have "1 \<le> snd (hd (data_access_pattern ?u))"
    by blast
  with ev show ?thesis by simp
qed

section \<open>The consumer profile\<close>

lemma entropy_loop_sum:
  assumes "0 < t" and "\<forall>c \<in> set cs. 0 \<le> c"
  shows "entropy_loop cs t acc =
     Inr (acc - (\<Sum>c\<leftarrow>filter (\<lambda>c. 0 < c) cs. (real_of_int c / real_of_int t) * log 2 (real_of_int c / real_of_int t)))"
  using assms(2)
proof (induction cs arbitrary: acc)
  case Nil
  then show ?case by simp
next
  case (Cons c cs)
  show ?case
  proof (cases "0 < c")
    case True
    then have "0 < real_of_int c / real_of_int t"
      using assms(1) by simp
    then show ?thesis
      using True Cons by (simp add: Let_def algebra_simps)
  next
    case False
    then show ?thesis using Cons by simp
  qed
qed

lemma shannon_entropy_spec:
  assumes "\<forall>kv \<in> set counts. 0 \<le> snd kv"
  shows "shannon_entropy counts = Inr (spec_entropy counts)"
proof (cases "sum_list (map snd counts) = 0")
  case True
  have "\<forall>c \<in> set (map snd counts). c = 0"
    using assms True by (subst (asm) sum_list_nonneg_eq_0_iff) auto
  then have "positive_counts counts = []"
    by (auto simp: positive_counts_def filter_empty_conv)
  then show ?thesis
    using True by (simp add: shannon_entropy_def spec_entropy_def)
next
  case False
  moreover have "0 \<le> sum_list (map snd counts)"
    using assms by (intro sum_list_nonneg) auto
  ultimately have pos: "0 < sum_list (map snd counts)" by simp
  have "\<forall>c \<in> set (map snd counts). 0 \<le> c" using assms by auto
  from entropy_loop_sum [OF pos this, of 0] show ?thesis
    using False by (simp add: shannon_entropy_def spec_entropy_def positive_counts_def Let_def)
qed

lemma member_le_sum_list_int:
  fixes xs :: "int list"
  assumes "\<forall>x \<in> set xs. 0 \<le> x" and "x \<in> set xs"
  shows "x \<le> sum_list xs"
  using assms
proof (induction xs)
  case Nil
  then show ?case by simp
next
  case (Cons y ys)
  have nn: "0 \<le> sum_list ys" using Cons.prems(1) by (intro sum_list_nonneg) auto
  show ?case
  proof (cases "x = y")
    case True
    then show ?thesis using nn by simp
  next
    case False
    then have "x \<le> sum_list ys" using Cons by auto
    then show ?thesis using Cons.prems(1) by simp
  qed
qed

lemma sum_list_positive_part:
  fixes xs :: "int list"
  assumes "\<forall>x \<in> set xs. 0 \<le> x"
  shows "sum_list (filter (\<lambda>c. 0 < c) xs) = sum_list xs"
  using assms by (induction xs) auto

lemma p_log_p_nonpos:
  fixes p :: real
  assumes "0 < p" and "p \<le> 1"
  shows "p * log 2 p \<le> 0"
proof -
  have "log 2 p \<le> 0" using assms by simp
  then show ?thesis
    using assms(1) by (simp add: mult_le_0_iff)
qed

lemma spec_entropy_nonneg:
  assumes "\<forall>kv \<in> set counts. 0 \<le> snd kv"
  shows "0 \<le> spec_entropy counts"
proof -
  let ?t = "sum_list (map snd counts)"
  have nn: "\<forall>c \<in> set (map snd counts). 0 \<le> c" using assms by auto
  have "(real_of_int c / real_of_int ?t) * log 2 (real_of_int c / real_of_int ?t) \<le> 0"
    if "c \<in> set (positive_counts counts)" for c
  proof -
    from that have c: "0 < c" "c \<in> set (map snd counts)"
      by (auto simp: positive_counts_def)
    then have "c \<le> ?t" using member_le_sum_list_int [OF nn] by blast
    then have "0 < real_of_int c / real_of_int ?t" "real_of_int c / real_of_int ?t \<le> 1"
      using c(1) by simp_all
    then show ?thesis
      by (rule p_log_p_nonpos)
  qed
  then have "(\<Sum>c\<leftarrow>positive_counts counts. (real_of_int c / real_of_int ?t) * log 2 (real_of_int c / real_of_int ?t)) \<le> 0"
    by (intro sum_list_nonpos) auto
  then show ?thesis
    by (simp add: spec_entropy_def Let_def)
qed

lemma gibbs_list:
  fixes ps :: "real list"
  assumes "\<forall>p \<in> set ps. 0 < p" and "sum_list ps = 1"
  shows "- (\<Sum>p\<leftarrow>ps. p * ln p) \<le> ln (real (length ps))"
proof -
  let ?n = "real (length ps)"
  have ne: "ps \<noteq> []" using assms(2) by auto
  then have npos: "0 < ?n" by simp
  have bound: "- (p * ln p) - p * ln ?n \<le> 1 / ?n - p" if "p \<in> set ps" for p
  proof -
    from that assms(1) have p: "0 < p" by blast
    have "ln (1 / (?n * p)) \<le> 1 / (?n * p) - 1"
      using p npos by (intro ln_le_minus_one) simp
    moreover have "ln (1 / (?n * p)) = - ln p - ln ?n"
      using p npos by (simp add: ln_div ln_mult)
    ultimately have "p * (- ln p - ln ?n) \<le> p * (1 / (?n * p) - 1)"
      using p by (simp add: mult_le_cancel_left_pos)
    moreover have "p * (1 / (?n * p) - 1) = 1 / ?n - p"
      using p npos by (simp add: field_simps)
    ultimately show ?thesis by (simp add: algebra_simps)
  qed
  have "(\<Sum>p\<leftarrow>ps. - (p * ln p) - p * ln ?n) \<le> (\<Sum>p\<leftarrow>ps. 1 / ?n - p)"
    using bound by (intro sum_list_mono) auto
  moreover have "(\<Sum>p\<leftarrow>xs. - (p * ln p) - p * L) = - (\<Sum>p\<leftarrow>xs. p * ln p) - L * sum_list xs"
    for xs :: "real list" and L
    by (induction xs) (simp_all add: algebra_simps)
  moreover have "(\<Sum>p\<leftarrow>xs. c - p) = real (length xs) * c - sum_list xs"
    for xs :: "real list" and c
    by (induction xs) (simp_all add: algebra_simps)
  ultimately have "- (\<Sum>p\<leftarrow>ps. p * ln p) - ln ?n * 1 \<le> length ps * (1 / ?n) - 1"
    using assms(2) by simp
  then show ?thesis
    using npos by simp
qed


lemma spec_entropy_le:
  assumes "\<forall>kv \<in> set counts. 0 \<le> snd kv" and "positive_counts counts \<noteq> []"
  shows "spec_entropy counts \<le> log 2 (real (length (positive_counts counts)))"
proof -
  let ?t = "sum_list (map snd counts)"
  let ?ps = "map (\<lambda>c. real_of_int c / real_of_int ?t) (positive_counts counts)"
  have nn: "\<forall>c \<in> set (map snd counts). 0 \<le> c" using assms(1) by auto
  have tsum: "sum_list (positive_counts counts) = ?t"
    unfolding positive_counts_def using nn by (rule sum_list_positive_part)
  obtain c0 where c0: "c0 \<in> set (positive_counts counts)"
    using assms(2) by (cases "positive_counts counts") auto
  then have "0 < c0" "c0 \<in> set (map snd counts)"
    by (auto simp: positive_counts_def)
  then have tpos: "0 < ?t"
    using member_le_sum_list_int [OF nn, of c0] by simp
  have pos: "\<forall>p \<in> set ?ps. 0 < p"
    using tpos by (auto simp: positive_counts_def)
  have sum_div: "(\<Sum>c\<leftarrow>xs. real_of_int c / d) = real_of_int (sum_list xs) / d" for xs :: "int list" and d :: real
    by (induction xs) (simp_all add: add_divide_distrib)
  have one: "sum_list ?ps = 1"
    using tpos tsum by (simp add: sum_div)
  from gibbs_list [OF pos one]
  have g: "- (\<Sum>p\<leftarrow>?ps. p * ln p) \<le> ln (real (length (positive_counts counts)))"
    by simp
  have "spec_entropy counts = - (\<Sum>p\<leftarrow>?ps. p * log 2 p)"
    by (simp add: spec_entropy_def Let_def o_def)
  also have "\<dots> = - (\<Sum>p\<leftarrow>?ps. p * ln p) / ln 2"
  proof -
    have "(\<Sum>p\<leftarrow>xs. p * log 2 p) = (\<Sum>p\<leftarrow>xs. p * ln p) / ln 2" for xs :: "real list"
      by (induction xs) (simp_all add: log_def add_divide_distrib)
    then have "(\<Sum>p\<leftarrow>?ps. p * log 2 p) = (\<Sum>p\<leftarrow>?ps. p * ln p) / ln 2" .
    then show ?thesis by (simp only: minus_divide_left)
  qed
  also have "\<dots> \<le> ln (real (length (positive_counts counts))) / ln 2"
    by (rule divide_right_mono [OF g]) simp
  also have "\<dots> = log 2 (real (length (positive_counts counts)))"
    by (simp add: log_def)
  finally show ?thesis .
qed

lemma kind_counts_loop_nonneg:
  "\<forall>kv \<in> set acc. 0 \<le> snd kv \<Longrightarrow> \<forall>kv \<in> set (kind_counts_loop l acc). 0 \<le> snd kv"
proof (induction l arbitrary: acc)
  case Nil
  then show ?case by simp
next
  case (Cons k ks)
  have "0 \<le> get_or acc k 0"
    using get_or_cases [of acc k 0] Cons.prems by force
  then have "\<forall>kv \<in> set (AList.update k (get_or acc k 0 + 1) acc). 0 \<le> snd kv"
    using Cons.prems by (auto dest!: set_update_cases)
  then show ?case using Cons.IH by simp
qed

lemma log2_quarter: "log 2 (1 / 4) = - 2"
proof -
  have "log 2 ((2::real) ^ 2) = real 2"
    by (rule log_pow_cancel) simp_all
  then have "log 2 4 = 2" by simp
  then show ?thesis
    by (simp add: log_divide)
qed

text \<open>
  C2, as the claim states it, fails: the entropy is not bounded by 1. Four kinds of
  consumers, one consumer each, have the entropy \<open>log 2 4 = 2\<close>.
\<close>

theorem consumer_profile_counterexample:
  "consumer_profile
     ((bare_unit ''u'' None ''u.ts'')
        \<lparr>consumerKinds := KindsDict [(''component'', 1), (''hook'', 1), (''function'', 1), (''method'', 1)]\<rparr>)
   = Inr [0, 2, 0]"
  by (simp add: consumer_profile_def bare_unit_def shannon_entropy_def Let_def log2_quarter)


text \<open>
  C2, amended. For every unit whose kind counts are not negative, \<open>consumer_profile\<close>
  returns three numbers: \<open>min(1, consumerCount / 50)\<close> (for a count that is not
  negative; 0 for a negative one), the base-2 Shannon entropy of the distribution of
  the consumer kinds, and \<open>min(1, distinct_consumer_directories / max(consumerCount, 1))\<close>.
  The first and the third lie in \<open>[0, 1]\<close>; the entropy lies between 0 and \<open>log 2 k\<close>,
  \<open>k\<close> being the number of kinds of positive count (or 1 when there is none), and so
  can exceed 1.
\<close>

theorem consumer_profile_amended:
  assumes "\<forall>d. consumerKinds u = KindsDict d \<longrightarrow> (\<forall>kv \<in> set d. 0 \<le> snd kv)"
  shows "consumer_profile u =
           Inr [if 0 < consumer_count_of u then spec_normalized_count u else 0,
                spec_entropy (kind_counts_of u),
                spec_dir_spread u]
     \<and> (0 \<le> consumer_count_of u \<longrightarrow>
          (if 0 < consumer_count_of u then spec_normalized_count u else 0) = spec_normalized_count u)
     \<and> 0 \<le> (if 0 < consumer_count_of u then spec_normalized_count u else 0)
     \<and> (if 0 < consumer_count_of u then spec_normalized_count u else 0) \<le> 1
     \<and> 0 \<le> spec_entropy (kind_counts_of u)
     \<and> spec_entropy (kind_counts_of u) \<le> log 2 (real (max 1 (length (positive_counts (kind_counts_of u)))))
     \<and> 0 \<le> spec_dir_spread u \<and> spec_dir_spread u \<le> 1"
proof -
  have nn: "\<forall>kv \<in> set (kind_counts_of u). 0 \<le> snd kv"
  proof (cases "consumerKinds u")
    case (KindsDict d)
    then show ?thesis using assms by (simp add: kind_counts_of_def)
  next
    case (KindsList l)
    then show ?thesis
      using kind_counts_loop_nonneg [of "[]" l] by (simp add: kind_counts_of_def)
  qed
  have ent: "(if kind_counts_of u \<noteq> [] then shannon_entropy (kind_counts_of u) else Inr 0)
      = Inr (spec_entropy (kind_counts_of u))"
    using shannon_entropy_spec [OF nn]
    by (simp add: spec_entropy_def positive_counts_def)
  have dirs: "(if 0 < distinct_dirs_of u
               then real (distinct_dirs_of u) / real_of_int (max (consumer_count_of u) 1) else 0)
      = real (distinct_dirs_of u) / real_of_int (max (consumer_count_of u) 1)"
    by simp
  have prof: "consumer_profile u =
           Inr [if 0 < consumer_count_of u then spec_normalized_count u else 0,
                spec_entropy (kind_counts_of u),
                spec_dir_spread u]"
    using ent dirs
    unfolding consumer_profile_def Let_def consumer_count_of_def [symmetric]
      kind_counts_of_def [symmetric] distinct_dirs_of_def [symmetric]
      spec_normalized_count_def spec_dir_spread_def
    by simp
  have upper: "spec_entropy (kind_counts_of u)
      \<le> log 2 (real (max 1 (length (positive_counts (kind_counts_of u)))))"
  proof (cases "positive_counts (kind_counts_of u) = []")
    case True
    then show ?thesis by (simp add: spec_entropy_def)
  next
    case False
    then have "max 1 (length (positive_counts (kind_counts_of u))) = length (positive_counts (kind_counts_of u))"
      by (cases "positive_counts (kind_counts_of u)") simp_all
    then show ?thesis
      using spec_entropy_le [OF nn False] by simp
  qed
  have d0: "0 \<le> real (distinct_dirs_of u) / real_of_int (max (consumer_count_of u) 1)"
    by simp
  show ?thesis
    using prof upper spec_entropy_nonneg [OF nn] d0
    by (auto simp: spec_normalized_count_def spec_dir_spread_def)
qed

theorem consumer_profile_amended_witness:
  "consumer_profile
     ((bare_unit ''u'' None ''u.ts'')
        \<lparr>consumerKinds := KindsDict [(''component'', 3), (''hook'', 1)], consumerCount := Some 4,
         consumerDirectories := DirsList [''apps/web'', ''apps/web'', ''lib'']\<rparr>)
   = Inr [2 / 25,
          spec_entropy [(''component'', 3), (''hook'', 1)],
          1 / 2]
   \<and> spec_entropy [(''component'', 3), (''hook'', 1)] \<le> 1"
  using consumer_profile_amended [of "(bare_unit ''u'' None ''u.ts'')
        \<lparr>consumerKinds := KindsDict [(''component'', 3), (''hook'', 1)], consumerCount := Some 4,
         consumerDirectories := DirsList [''apps/web'', ''apps/web'', ''lib'']\<rparr>"]
  by (simp add: bare_unit_def consumer_count_of_def kind_counts_of_def distinct_dirs_of_def
      spec_normalized_count_def spec_dir_spread_def positive_counts_def)

section \<open>Neighbourhood hashes of units without consumers\<close>

lemma demo_digest_nonempty: "\<forall>j. demo_digest j \<noteq> []"
  by (simp add: demo_digest_def)

lemma graph_no_consumers:
  assumes "\<forall>u \<in> set units. unit_id u = a \<longrightarrow> consumers u = []" and "get_or g a {} = {}"
  shows "get_or (build_consumer_graph_loop units g) a {} = {}"
  using assms
proof (induction units arbitrary: g)
  case Nil
  then show ?case by simp
next
  case (Cons u us)
  have "get_or (AList.update (unit_id u) (extract_consumer_ids u) g) a {} = {}"
    using Cons.prems by (auto simp: get_or_def update_conv' extract_consumer_ids_def)
  then show ?case
    using Cons by auto
qed

lemma neighborhood_loop_isolated:
  "get_or g a {} = {} \<Longrightarrow> neighborhood_loop r g {a} {a} = {a}"
  by (cases r) (simp_all add: Let_def)

lemma neighborhood_hash_isolated:
  "get_or g a {} = {} \<Longrightarrow> neighborhood_hash H a g r = H (JArr [])"
  by (simp add: neighborhood_hash_def neighborhood_loop_isolated)

lemma dep_context_loop_hashes:
  assumes "dep_context_loop H g units res = Inr dcx" and "a \<noteq> []"
    and "a \<in> unit_id ` set units
         \<or> (map_option neighborhoodHash_r1 (map_of res a) = Some (neighborhood_hash H a g 1)
            \<and> map_option neighborhoodHash_r2 (map_of res a) = Some (neighborhood_hash H a g 2))"
  shows "map_option neighborhoodHash_r1 (map_of dcx a) = Some (neighborhood_hash H a g 1)
       \<and> map_option neighborhoodHash_r2 (map_of dcx a) = Some (neighborhood_hash H a g 2)"
  using assms
proof (induction units arbitrary: res)
  case Nil
  then show ?case by simp
next
  case (Cons u us)
  show ?case
  proof (cases "unit_id u = []")
    case True
    then show ?thesis
      using Cons.prems by (intro Cons.IH) auto
  next
    case False
    then obtain cp where cp: "consumer_profile u = Inr cp"
      using Cons.prems(1) by (cases "consumer_profile u") auto
    let ?res = "AList.update (unit_id u)
                     \<lparr>consumerProfile = cp,
                      cooccurrenceVector = cooccurrence_vector u,
                      neighborhoodHash_r1 = neighborhood_hash H (unit_id u) g 1,
                      neighborhoodHash_r2 = neighborhood_hash H (unit_id u) g 2\<rparr> res"
    have run: "dep_context_loop H g us ?res = Inr dcx"
      using Cons.prems(1) False cp by simp
    have "a \<in> unit_id ` set us
         \<or> (map_option neighborhoodHash_r1 (map_of ?res a) = Some (neighborhood_hash H a g 1)
            \<and> map_option neighborhoodHash_r2 (map_of ?res a) = Some (neighborhood_hash H a g 2))"
      using Cons.prems(3) by (auto simp: update_conv')
    from Cons.IH [OF run Cons.prems(2) this] show ?thesis .
  qed
qed

text \<open>
  C10. Two units of an inventory that each have an empty consumers list get the same
  \<open>neighborhoodHash_r1\<close> from the depcontext stage, the digest of the empty list, and
  the neighbourhood signal of the pair is 1. The ids of an inventory are unique; the
  theorem asks only that a unit sharing the id of one of the two has no consumers
  either. The digests are not empty (a hexadecimal digest has 64 characters).
\<close>

theorem empty_consumers_same_neighborhood:
  assumes digest: "\<forall>j. H j \<noteq> []"
    and ua: "ua \<in> set units" "unit_id ua \<noteq> []"
    and ub: "ub \<in> set units" "unit_id ub \<noteq> []"
    and no_consumers: "\<forall>u \<in> set units. unit_id u \<in> {unit_id ua, unit_id ub} \<longrightarrow> consumers u = []"
    and run: "compute_dep_context H units = Inr dcx"
  shows "map_option neighborhoodHash_r1 (map_of dcx (unit_id ua)) = Some (H (JArr []))
       \<and> map_option neighborhoodHash_r1 (map_of dcx (unit_id ub)) = Some (H (JArr []))
       \<and> sig_neighborhood (unit_id ua) (unit_id ub) dcx = 1"
proof -
  let ?g = "build_consumer_graph units"
  have iso: "get_or ?g (unit_id x) {} = {}" if "x = ua \<or> x = ub" for x
    unfolding build_consumer_graph_def
    using no_consumers that by (intro graph_no_consumers) (auto simp: get_or_def)
  have r1: "map_option neighborhoodHash_r1 (map_of dcx (unit_id x)) = Some (H (JArr []))"
    if "x = ua \<or> x = ub" for x
  proof -
    have "unit_id x \<noteq> []" "unit_id x \<in> unit_id ` set units"
      using that ua ub by auto
    with dep_context_loop_hashes [of H ?g units "[]" dcx "unit_id x"] run
    have "map_option neighborhoodHash_r1 (map_of dcx (unit_id x)) = Some (neighborhood_hash H (unit_id x) ?g 1)"
      by (simp add: compute_dep_context_def)
    then show ?thesis
      using iso [OF that] by (simp add: neighborhood_hash_isolated)
  qed
  have a: "map_option neighborhoodHash_r1 (map_of dcx (unit_id ua)) = Some (H (JArr []))"
    by (rule r1) simp
  have b: "map_option neighborhoodHash_r1 (map_of dcx (unit_id ub)) = Some (H (JArr []))"
    by (rule r1) simp
  have "sig_neighborhood (unit_id ua) (unit_id ub) dcx = 1"
    unfolding sig_neighborhood_def Let_def a b using digest by (simp add: truthy_def)
  with a b show ?thesis by simp
qed

theorem empty_consumers_same_neighborhood_witness:
  "compute_dep_context demo_digest
     [unary_function ''a.ts::f'' ''a.ts'' None, unary_function ''b.ts::g'' ''b.ts'' None]
   = Inr [(''a.ts::f'', \<lparr>consumerProfile = [0, 0, 0], cooccurrenceVector = [],
             neighborhoodHash_r1 = ''sha256:[]'', neighborhoodHash_r2 = ''sha256:[]''\<rparr>),
          (''b.ts::g'', \<lparr>consumerProfile = [0, 0, 0], cooccurrenceVector = [],
             neighborhoodHash_r1 = ''sha256:[]'', neighborhoodHash_r2 = ''sha256:[]''\<rparr>)]
   \<and> sig_neighborhood ''a.ts::f'' ''b.ts::g''
        [(''a.ts::f'', \<lparr>consumerProfile = [0, 0, 0], cooccurrenceVector = [],
             neighborhoodHash_r1 = ''sha256:[]'', neighborhoodHash_r2 = ''sha256:[]''\<rparr>),
          (''b.ts::g'', \<lparr>consumerProfile = [0, 0, 0], cooccurrenceVector = [],
             neighborhoodHash_r1 = ''sha256:[]'', neighborhoodHash_r2 = ''sha256:[]''\<rparr>)] = 1"
proof -
  let ?units = "[unary_function ''a.ts::f'' ''a.ts'' None, unary_function ''b.ts::g'' ''b.ts'' None]"
  let ?dcx = "[(''a.ts::f'', \<lparr>consumerProfile = [0, 0, 0], cooccurrenceVector = [],
             neighborhoodHash_r1 = ''sha256:[]'', neighborhoodHash_r2 = ''sha256:[]''\<rparr>),
          (''b.ts::g'', \<lparr>consumerProfile = [0, 0, 0], cooccurrenceVector = [],
             neighborhoodHash_r1 = ''sha256:[]'', neighborhoodHash_r2 = ''sha256:[]''\<rparr>)]"
  have run: "compute_dep_context demo_digest ?units = Inr ?dcx"
    by (simp add: compute_dep_context_def build_consumer_graph_def unary_function_def bare_unit_def
        consumer_profile_def extract_consumer_ids_def cooccurrence_vector_def neighborhood_hash_def
        neighborhood_loop_isolated get_or_def demo_digest_def Let_def)
  have "sig_neighborhood (unit_id (unary_function ''a.ts::f'' ''a.ts'' None))
          (unit_id (unary_function ''b.ts::g'' ''b.ts'' None)) ?dcx = 1"
    using empty_consumers_same_neighborhood [of demo_digest "unary_function ''a.ts::f'' ''a.ts'' None" ?units
        "unary_function ''b.ts::g'' ''b.ts'' None" ?dcx] run
    by (simp add: demo_digest_def unary_function_def bare_unit_def)
  then show ?thesis
    using run by (simp add: unary_function_def bare_unit_def)
qed

section \<open>Two identical unary functions in different files\<close>

lemma classify_string: "classify_type ''string'' = \<lparr>has_void = False, has_function = False, has_object = False, has_array = False\<rparr>"
  by (simp add: classify_type_def lower_def lower_char_def strip_def is_space_def startswith_def Let_def)

lemma classify_number: "classify_type ''number'' = \<lparr>has_void = False, has_function = False, has_object = False, has_array = False\<rparr>"
  by (simp add: classify_type_def lower_def lower_char_def strip_def is_space_def startswith_def Let_def)

lemma two_functions_fingerprints:
  assumes "ida \<noteq> []" "idb \<noteq> []" "ida \<noteq> idb"
  shows "compute_fingerprints H [unary_function ida fa na, unary_function idb fb nb]
       = [(ida, plain_fingerprint), (idb, plain_fingerprint)]"
  using assms
  by (simp add: compute_fingerprints_def unary_function_def bare_unit_def plain_fingerprint_def
      jsx_hash_def hook_profile_def HOOK_ORDER_def get_or_def import_constellation_def
      behavior_flags_def BEHAVIOR_KEYS_def data_access_pattern_def Let_def)

lemma two_functions_typesigs:
  assumes "ida \<noteq> []" "idb \<noteq> []" "ida \<noteq> idb"
  shows "compute_type_signatures H [unary_function ida fa na, unary_function idb fb nb]
       = [(ida, unary_typesig H), (idb, unary_typesig H)]"
  using assms
  by (simp add: compute_type_signatures_def unary_function_def bare_unit_def unary_typesig_def
      normalize_type_def classify_string classify_number Let_def)

lemma two_functions_call_vectors:
  assumes "ida \<noteq> []" "idb \<noteq> []" "ida \<noteq> idb"
  shows "compute_call_vectors H [unary_function ida fa na, unary_function idb fb nb]
       = [(ida, \<lparr>calleeSetVector = [], sequenceHashes = []\<rparr>),
          (idb, \<lparr>calleeSetVector = [], sequenceHashes = []\<rparr>)]"
  using assms
  by (simp add: compute_call_vectors_def unary_function_def bare_unit_def
      callee_set_vector_def sequence_hashes_def Let_def)

lemma two_functions_dep_context:
  assumes "ida \<noteq> []" "idb \<noteq> []" "ida \<noteq> idb"
  shows "compute_dep_context H [unary_function ida fa na, unary_function idb fb nb]
       = Inr [(ida, plain_dep_context H), (idb, plain_dep_context H)]"
  using assms
  by (simp add: compute_dep_context_def build_consumer_graph_def unary_function_def bare_unit_def
      consumer_profile_def extract_consumer_ids_def cooccurrence_vector_def neighborhood_hash_def
      neighborhood_loop_isolated plain_dep_context_def get_or_def Let_def)


lemma function_weights:
  "get_weights False False ''function'' ''function'' =
     [(''typeSignature'', 8 / 39), (''imports'', 3 / 39), (''dataAccess'', 2 / 39), (''behavior'', 1 / 39),
      (''calleeSet'', 13 / 78), (''callSequence'', 13 / 78), (''consumerSet'', 5 / 39),
      (''coOccurrence'', 4 / 39), (''neighborhood'', 3 / 39)]"
  by (simp add: get_weights_def Let_def sum_values_def divide_values_def
       WEIGHTS_WITHOUT_EMBEDDINGS_def AList.delete_eq)

lemma two_functions_weights:
  assumes "ida \<noteq> idb"
  shows "pair_weights [(ida, unary_function ida fa na), (idb, unary_function idb fb nb)]
           (two_function_artifacts H ida idb) ida idb
         = get_weights False False ''function'' ''function''"
  using assms
  by (simp add: pair_weights_def two_function_artifacts_def field_or_def get_kind_def
      unary_function_def bare_unit_def)

lemma two_functions_signals:
  assumes "ida \<noteq> idb" and "\<forall>j. H j \<noteq> []"
  shows "pair_signals [(ida, unary_function ida fa na), (idb, unary_function idb fb nb)]
           (two_function_artifacts H ida idb) ida idb
         = two_function_signals"
proof -
  let ?ubi = "[(ida, unary_function ida fa na), (idb, unary_function idb fb nb)]"
  let ?arts = "two_function_artifacts H ida idb"
  have ts: "sig_type_signature ida idb (typesigs ?arts) = 1"
    using assms by (simp add: sig_type_signature_def two_function_artifacts_def unary_typesig_def)
  have im: "sig_imports ida idb (fps ?arts) = 0"
    using assms by (simp add: sig_imports_def two_function_artifacts_def field_or_def
        plain_fingerprint_def cosine_sim_def)
  have da: "sig_data_access ida idb (fps ?arts) = 0"
    using assms by (simp add: sig_data_access_def two_function_artifacts_def field_or_def
        plain_fingerprint_def)
  have bh: "sig_behavior ida idb (fps ?arts) = 1"
    using assms by (simp add: sig_behavior_def two_function_artifacts_def field_or_def
        plain_fingerprint_def normalized_hamming_def)
  have cs: "sig_callee_set ida idb (cg ?arts) = 0"
    using assms by (simp add: sig_callee_set_def two_function_artifacts_def field_or_def cosine_sim_def)
  have sq: "sig_call_sequence ida idb (cg ?arts) = 0"
    using assms by (simp add: sig_call_sequence_def two_function_artifacts_def field_or_def)
  have co: "sig_consumer_set ida idb ?ubi = 0"
    using assms by (simp add: sig_consumer_set_def consumer_ids_of_def extract_consumer_ids_def
        unary_function_def bare_unit_def)
  have cc: "sig_cooccurrence ida idb (dc ?arts) = 0"
    using assms by (simp add: sig_cooccurrence_def two_function_artifacts_def field_or_def
        plain_dep_context_def cosine_sim_def)
  have nb: "sig_neighborhood ida idb (dc ?arts) = 1"
    using assms by (simp add: sig_neighborhood_def two_function_artifacts_def
        plain_dep_context_def truthy_def)
  show ?thesis
    unfolding pair_signals_def two_functions_weights [OF assms(1)] function_weights
    by (simp add: compute_signals_def ts im da bh cs sq co cc nb two_function_signals_def)
qed

lemma two_functions_score:
  assumes "ida \<noteq> idb" and "\<forall>j. H j \<noteq> []"
  shows "pair_score [(ida, unary_function ida fa na), (idb, unary_function idb fb nb)]
           (two_function_artifacts H ida idb) ida idb = 4 / 13"
  unfolding pair_score_def two_functions_signals [OF assms] two_functions_weights [OF assms(1)]
    function_weights
  by (simp add: weighted_sum_def two_function_signals_def get_or_def)

lemma two_functions_compute_scores:
  assumes "ida \<noteq> []" "idb \<noteq> []" "ida \<noteq> idb" "fa \<noteq> fb" and "\<forall>j. H j \<noteq> []"
  shows "compute_scores [unary_function ida fa na, unary_function idb fb nb]
           (two_function_artifacts H ida idb) threshold
         = (if threshold \<le> 4 / 13
            then [\<lparr>unitA = ida, unitB = idb, score = 3077 / 10000,
                    signals = two_function_signals, dominantSignal = ''typeSignature''\<rparr>]
            else [])"
proof -
  let ?ubi = "[(ida, unary_function ida fa na), (idb, unary_function idb fb nb)]"
  have ubi: "build_units_by_id [unary_function ida fa na, unary_function idb fb nb] [] = ?ubi"
    using assms(1-3) by (simp add: unary_function_def bare_unit_def)
  have cand: "map fst (filter (\<lambda>(uid, u). get_kind u \<notin> SKIP_KINDS) ?ubi) = [ida, idb]"
    by (simp add: get_kind_def SKIP_KINDS_def unary_function_def bare_unit_def)
  have rnd: "map (\<lambda>(k, v). (k, py_round v 4)) two_function_signals = two_function_signals"
    by (simp add: two_function_signals_def py_round_def Let_def)
  have pair: "score_pair ?ubi (two_function_artifacts H ida idb) threshold ida idb
      = (if threshold \<le> 4 / 13
         then Some \<lparr>unitA = ida, unitB = idb, score = 3077 / 10000,
                    signals = two_function_signals, dominantSignal = ''typeSignature''\<rparr>
         else None)"
    unfolding score_pair_def Let_def two_functions_signals [OF assms(3,5)]
      two_functions_score [OF assms(3,5)] rnd
    using assms(3,4)
    by (simp add: field_or_def get_kind_def unary_function_def bare_unit_def is_comparable_def
        py_round_def Let_def dominant_def two_function_signals_def)
  show ?thesis
    unfolding compute_scores_def Let_def ubi cand
    by (simp add: pair)
qed

text \<open>
  C1, as the claim states it, fails: for the two functions the behavior signal and the
  neighborhood signal are 1, not 0, and with the threshold 0.3 the pair is emitted with
  the score 0.3077 although the renormalised weight of \<open>typeSignature\<close>, \<open>8 / 39\<close>, is
  below the threshold.
\<close>

theorem two_functions_counterexample:
  "run_scores demo_digest
     [unary_function ''a.ts::f'' ''a.ts'' None, unary_function ''b.ts::g'' ''b.ts'' None] [] [] (3 / 10)
   = Inr [\<lparr>unitA = ''a.ts::f'', unitB = ''b.ts::g'', score = 3077 / 10000,
            signals = [(''typeSignature'', 1), (''imports'', 0), (''dataAccess'', 0),
                       (''behavior'', 1), (''calleeSet'', 0), (''callSequence'', 0),
                       (''consumerSet'', 0), (''coOccurrence'', 0), (''neighborhood'', 1)],
            dominantSignal = ''typeSignature''\<rparr>]
   \<and> get_or (get_weights False False ''function'' ''function'') ''typeSignature'' 0 = 8 / 39
   \<and> \<not> ((3 / 10 :: real) \<le> 8 / 39)"
proof (intro conjI)
  let ?ua = "unary_function ''a.ts::f'' ''a.ts'' None"
  let ?ub = "unary_function ''b.ts::g'' ''b.ts'' None"
  have arts: "\<lparr>fps = compute_fingerprints demo_digest [?ua, ?ub],
               typesigs = compute_type_signatures demo_digest [?ua, ?ub],
               cg = compute_call_vectors demo_digest [?ua, ?ub],
               dc = [(''a.ts::f'', plain_dep_context demo_digest), (''b.ts::g'', plain_dep_context demo_digest)],
               embeddings = [], structural_patterns = []\<rparr>
             = two_function_artifacts demo_digest ''a.ts::f'' ''b.ts::g''"
    by (simp add: two_functions_fingerprints two_functions_typesigs two_functions_call_vectors
        two_function_artifacts_def)
  have dcx: "compute_dep_context demo_digest [?ua, ?ub]
      = Inr [(''a.ts::f'', plain_dep_context demo_digest), (''b.ts::g'', plain_dep_context demo_digest)]"
    by (rule two_functions_dep_context) simp_all
  have sc: "compute_scores [?ua, ?ub] (two_function_artifacts demo_digest ''a.ts::f'' ''b.ts::g'') (3 / 10)
      = [\<lparr>unitA = ''a.ts::f'', unitB = ''b.ts::g'', score = 3077 / 10000,
            signals = two_function_signals, dominantSignal = ''typeSignature''\<rparr>]"
    using two_functions_compute_scores [of "''a.ts::f''" "''b.ts::g''" "''a.ts''" "''b.ts''" demo_digest None None "3 / 10"]
      demo_digest_nonempty
    by simp
  show "run_scores demo_digest [?ua, ?ub] [] [] (3 / 10)
   = Inr [\<lparr>unitA = ''a.ts::f'', unitB = ''b.ts::g'', score = 3077 / 10000,
            signals = [(''typeSignature'', 1), (''imports'', 0), (''dataAccess'', 0),
                       (''behavior'', 1), (''calleeSet'', 0), (''callSequence'', 0),
                       (''consumerSet'', 0), (''coOccurrence'', 0), (''neighborhood'', 1)],
            dominantSignal = ''typeSignature''\<rparr>]"
    unfolding run_scores_def dcx sum.case arts sc
    by (simp add: two_function_signals_def)
  show "get_or (get_weights False False ''function'' ''function'') ''typeSignature'' 0 = 8 / 39"
    unfolding function_weights by (simp add: get_or_def)
  show "\<not> ((3 / 10 :: real) \<le> 8 / 39)"
    by simp
qed

text \<open>
  C1, amended. For two units of kind \<^verbatim>\<open>function\<close> in different files, each with
  \<^verbatim>\<open>parameters=[{type:"string"}]\<close>, \<^verbatim>\<open>returnType:"number"\<close> and no other field, scored
  without embeddings and structural patterns: the signals \<open>typeSignature\<close>, \<open>behavior\<close>
  (the two flag vectors are the same eight zeros) and \<open>neighborhood\<close> (both units have
  the hash of the empty neighbourhood) are 1 and every other computed signal is 0; the
  score is the sum of the renormalised weights of these three signals, \<open>4 / 13\<close>, and
  the pair is emitted, with the score rounded to 0.3077, iff \<open>4 / 13\<close> is at least the
  threshold.
\<close>

theorem two_functions_amended:
  assumes "ida \<noteq> []" "idb \<noteq> []" "ida \<noteq> idb" "fa \<noteq> fb" and "\<forall>j. H j \<noteq> []"
  shows "run_scores H [unary_function ida fa na, unary_function idb fb nb] [] [] threshold
         = Inr (if threshold \<le> 4 / 13
                then [\<lparr>unitA = ida, unitB = idb, score = 3077 / 10000,
                        signals = [(''typeSignature'', 1), (''imports'', 0), (''dataAccess'', 0),
                                   (''behavior'', 1), (''calleeSet'', 0), (''callSequence'', 0),
                                   (''consumerSet'', 0), (''coOccurrence'', 0), (''neighborhood'', 1)],
                        dominantSignal = ''typeSignature''\<rparr>]
                else [])
     \<and> get_or (get_weights False False ''function'' ''function'') ''typeSignature'' 0
       + get_or (get_weights False False ''function'' ''function'') ''behavior'' 0
       + get_or (get_weights False False ''function'' ''function'') ''neighborhood'' 0 = 4 / 13"
proof
  have arts: "\<lparr>fps = compute_fingerprints H [unary_function ida fa na, unary_function idb fb nb],
               typesigs = compute_type_signatures H [unary_function ida fa na, unary_function idb fb nb],
               cg = compute_call_vectors H [unary_function ida fa na, unary_function idb fb nb],
               dc = [(ida, plain_dep_context H), (idb, plain_dep_context H)],
               embeddings = [], structural_patterns = []\<rparr> = two_function_artifacts H ida idb"
    using assms(1-3)
    by (simp add: two_functions_fingerprints two_functions_typesigs two_functions_call_vectors
        two_function_artifacts_def)
  show "run_scores H [unary_function ida fa na, unary_function idb fb nb] [] [] threshold
         = Inr (if threshold \<le> 4 / 13
                then [\<lparr>unitA = ida, unitB = idb, score = 3077 / 10000,
                        signals = [(''typeSignature'', 1), (''imports'', 0), (''dataAccess'', 0),
                                   (''behavior'', 1), (''calleeSet'', 0), (''callSequence'', 0),
                                   (''consumerSet'', 0), (''coOccurrence'', 0), (''neighborhood'', 1)],
                        dominantSignal = ''typeSignature''\<rparr>]
                else [])"
    unfolding run_scores_def two_functions_dep_context [OF assms(1-3)] sum.case arts
      two_functions_compute_scores [OF assms]
    by (simp add: two_function_signals_def)
  show "get_or (get_weights False False ''function'' ''function'') ''typeSignature'' 0
       + get_or (get_weights False False ''function'' ''function'') ''behavior'' 0
       + get_or (get_weights False False ''function'' ''function'') ''neighborhood'' 0 = 4 / 13"
    unfolding function_weights by (simp add: get_or_def)
qed

theorem two_functions_amended_witness:
  "run_scores demo_digest
     [unary_function ''a.ts::f'' ''a.ts'' None, unary_function ''b.ts::g'' ''b.ts'' None] [] [] (35 / 100)
   = Inr []"
  using two_functions_amended [of "''a.ts::f''" "''b.ts::g''" "''a.ts''" "''b.ts''" demo_digest None None "35 / 100"]
    demo_digest_nonempty
  by simp

section \<open>Bounds\<close>

lemma unit_interval_simps [simp]: "unit_interval 0" "unit_interval 1"
  by (simp_all add: unit_interval_def)

lemma cosine_sim_unit: "unit_interval (cosine_sim a b)"
  by (simp add: cosine_sim_def unit_interval_def Let_def)

lemma jaccard_sim_unit: "unit_interval (jaccard_sim a b)"
proof (cases "card (a \<union> b) = 0")
  case True
  then show ?thesis by (simp add: jaccard_sim_def Let_def)
next
  case False
  then have "finite (a \<union> b)" by (rule card_ge_0_finite [OF neq0_conv [THEN iffD1]])
  then have "card (a \<inter> b) \<le> card (a \<union> b)"
    by (intro card_mono) auto
  then show ?thesis
    using False by (simp add: jaccard_sim_def Let_def unit_interval_def)
qed

lemma normalized_hamming_unit: "unit_interval (normalized_hamming a b)"
proof -
  define k where "k = length (filter (\<lambda>i. a ! i \<noteq> b ! i) [0..<min (length a) (length b)])"
  define d where "d = length (filter (\<lambda>(x, y). x \<noteq> y) (zip a b))"
  have k: "k \<le> min (length a) (length b)"
    unfolding k_def using length_filter_le [of _ "[0..<min (length a) (length b)]"] by simp
  have d: "d \<le> length a"
    unfolding d_def using length_filter_le [of _ "zip a b"] by simp
  consider "a = [] \<and> b = []" | "\<not> (a = [] \<and> b = [])" "length a = length b"
    | "length a \<noteq> length b" by blast
  then show ?thesis
  proof cases
    case 1
    then show ?thesis by (simp add: normalized_hamming_def)
  next
    case 2
    then have "normalized_hamming a b = 1 - real d / real (length a)"
      by (simp add: normalized_hamming_def Let_def d_def)
    moreover have "real d / real (length a) \<le> 1"
      using d 2 by (simp add: divide_le_eq)
    ultimately show ?thesis
      by (simp add: unit_interval_def)
  next
    case 3
    define m where "m = max (length a) (length b) - min (length a) (length b) + k"
    have "normalized_hamming a b = 1 - real m / real (max (length a) (length b))"
      using 3 by (auto simp: normalized_hamming_def Let_def m_def k_def)
    moreover have "m \<le> max (length a) (length b)"
      unfolding m_def using k by linarith
    moreover have "0 < max (length a) (length b)"
      using 3 by (cases a; cases b) auto
    ultimately show ?thesis
      by (simp add: unit_interval_def divide_le_eq)
  qed
qed

lemma tree_edit_unit: "unit_interval (tree_edit_distance_normalized ta tb)"
  by (simp add: tree_edit_distance_normalized_def Let_def unit_interval_def)

lemma sig_semantic_unit: "unit_interval (sig_semantic a b e)"
  by (auto simp: sig_semantic_def cosine_sim_unit split: option.splits)

lemma sig_type_signature_unit: "unit_interval (sig_type_signature a b t)"
  by (auto simp: sig_type_signature_def unit_interval_def split: option.splits)

lemma sig_jsx_structure_unit: "unit_interval (sig_jsx_structure a b f u)"
  using tree_edit_unit by (auto simp: sig_jsx_structure_def Let_def unit_interval_def)

lemma sig_hook_profile_unit: "unit_interval (sig_hook_profile a b f)"
  by (simp add: sig_hook_profile_def Let_def cosine_sim_unit)

lemma sig_imports_unit: "unit_interval (sig_imports a b f)"
  by (simp add: sig_imports_def cosine_sim_unit)

lemma sig_data_access_unit: "unit_interval (sig_data_access a b f)"
  by (simp add: sig_data_access_def Let_def jaccard_sim_unit)

lemma sig_behavior_unit: "unit_interval (sig_behavior a b f)"
  by (simp add: sig_behavior_def Let_def normalized_hamming_unit)

lemma sig_callee_set_unit: "unit_interval (sig_callee_set a b g)"
  by (simp add: sig_callee_set_def cosine_sim_unit)

lemma sig_call_sequence_unit: "unit_interval (sig_call_sequence a b g)"
proof -
  let ?sa = "field_or g a sequenceHashes []" and ?sb = "field_or g b sequenceHashes []"
  let ?c = "set (map fst ?sa) \<inter> set (map fst ?sb)"
  have "card ?c \<le> card (set (map fst ?sa))"
    by (intro card_mono) auto
  also have "\<dots> \<le> length ?sa"
    using card_length [of "map fst ?sa"] by simp
  finally have le: "card ?c \<le> max (length ?sa) (length ?sb)" by simp
  have "0 \<le> 0.3 * real (card ?c) / real (max (length ?sa) (length ?sb))"
    by simp
  moreover have "0.3 * real (card ?c) / real (max (length ?sa) (length ?sb)) \<le> 1"
  proof (cases "max (length ?sa) (length ?sb) = 0")
    case True
    then show ?thesis by simp
  next
    case False
    then have "real (card ?c) / real (max (length ?sa) (length ?sb)) \<le> 1"
      using le by (simp add: divide_le_eq)
    then show ?thesis by simp
  qed
  ultimately show ?thesis
    by (simp add: sig_call_sequence_def Let_def unit_interval_def)
qed

lemma sig_consumer_set_unit: "unit_interval (sig_consumer_set a b u)"
  using jaccard_sim_unit [of "consumer_ids_of u a" "consumer_ids_of u b"]
  by (simp add: sig_consumer_set_def Let_def unit_interval_def)

lemma sig_cooccurrence_unit: "unit_interval (sig_cooccurrence a b d)"
  by (simp add: sig_cooccurrence_def cosine_sim_unit)

lemma sig_neighborhood_unit: "unit_interval (sig_neighborhood a b d)"
  by (simp add: sig_neighborhood_def Let_def unit_interval_def)

lemma sig_structural_pattern_unit: "unit_interval (sig_structural_pattern a b p)"
  by (simp add: sig_structural_pattern_def Let_def jaccard_sim_unit)

lemma ball_optional_entry:
  "(\<forall>kv \<in> set (if c then [x] else []). P kv) \<longleftrightarrow> (c \<longrightarrow> P x)"
  by (cases c) simp_all

lemma compute_signals_unit:
  "\<forall>kv \<in> set (compute_signals w a b u arts). unit_interval (snd kv)"
  unfolding compute_signals_def Let_def set_append ball_Un ball_optional_entry
  by (simp add: sig_semantic_unit sig_type_signature_unit
      sig_jsx_structure_unit sig_hook_profile_unit sig_imports_unit sig_data_access_unit
      sig_behavior_unit sig_callee_set_unit sig_call_sequence_unit sig_consumer_set_unit
      sig_cooccurrence_unit sig_neighborhood_unit sig_structural_pattern_unit)

lemma py_round_unit:
  assumes "unit_interval x"
  shows "unit_interval (py_round x n)"
proof -
  define s :: real where "s = 10 ^ n"
  define y where "y = x * s"
  define f where "f = \<lfloor>y\<rfloor>"
  define d where "d = y - of_int f"
  define r where "r = (if d < 1 / 2 then f else if 1 / 2 < d then f + 1 else if even f then f else f + 1)"
  have s: "0 < s" and s_int: "s = of_int (10 ^ n)"
    by (simp_all add: s_def)
  have y0: "0 \<le> y" and y1: "y \<le> s"
    using assms s by (simp_all add: unit_interval_def y_def mult_left_le_one_le)
  have f0: "0 \<le> f" using y0 by (simp add: f_def)
  have f1: "f \<le> 10 ^ n"
    unfolding f_def using y1 unfolding s_int by (metis floor_mono floor_of_int)
  have r0: "0 \<le> r" using f0 by (simp add: r_def)
  have r1: "r \<le> 10 ^ n"
  proof (cases "f = 10 ^ n")
    case True
    then have "of_int f = s" by (simp add: s_def)
    then have "d \<le> 0" using y1 by (simp add: d_def)
    then have "r = f" by (simp add: r_def)
    then show ?thesis using True by simp
  next
    case False
    then have "f + 1 \<le> 10 ^ n" using f1 by simp
    then show ?thesis using f1 by (simp add: r_def)
  qed
  have "py_round x n = of_int r / s"
    by (simp add: py_round_def Let_def r_def d_def f_def y_def s_def)
  moreover have "0 \<le> (of_int r :: real)" using r0 by (simp only: of_int_0_le_iff)
  moreover have "(of_int r :: real) \<le> s" unfolding s_int using r1 by (simp only: of_int_le_iff)
  ultimately show ?thesis
    using s by (simp add: unit_interval_def divide_le_eq)
qed


lemma filter_Cons_append: "filter P (n # ns) = (if P n then [n] else []) @ filter P ns"
  by simp

lemma map_fst_optional_entry: "map fst (if c then [(n, v)] else []) = (if c then [n] else [])"
  by simp

lemma keys_compute_signals:
  "map fst (compute_signals w a b u arts) = filter (\<lambda>n. n \<in> set (map fst w)) SIGNAL_ORDER"
  unfolding compute_signals_def Let_def SIGNAL_ORDER_def map_append map_fst_optional_entry
    filter_Cons_append filter.simps(1) append_Nil2
  by (rule refl)

lemma distinct_SIGNAL_ORDER: "distinct SIGNAL_ORDER"
  by (simp add: SIGNAL_ORDER_def)

lemma distinct_keys_compute_signals: "distinct (map fst (compute_signals w a b u arts))"
  unfolding keys_compute_signals by (rule distinct_filter [OF distinct_SIGNAL_ORDER])

lemma keys_scale_values: "map fst (scale_values f d) = map fst d"
  by (induction d) (auto simp: scale_values_def)

lemma keys_divide_values: "map fst (divide_values t d) = map fst d"
  by (induction d) (auto simp: divide_values_def)

lemma distinct_fold_delete:
  "distinct (map fst d) \<Longrightarrow> distinct (map fst (fold AList.delete ks d))"
  by (induction ks arbitrary: d) (simp_all add: distinct_delete)

lemma distinct_base_table: "distinct (map fst (base_table he hp))"
  by (cases he; cases hp)
     (simp_all add: base_table_def distinct_update keys_scale_values
        WEIGHTS_WITH_EMBEDDINGS_def WEIGHTS_WITHOUT_EMBEDDINGS_def)

lemma distinct_dropped_table: "distinct (map fst (dropped_table he hp both hooks))"
  unfolding dropped_table_def by (rule distinct_fold_delete [OF distinct_base_table])

lemma distinct_keys_get_weights: "distinct (map fst (get_weights he hp ka kb))"
  unfolding get_weights_dropped Let_def
  by (simp add: keys_divide_values distinct_dropped_table)

lemma nonneg_scale_values: "0 \<le> f \<Longrightarrow> nonneg_values d \<Longrightarrow> nonneg_values (scale_values f d)"
  by (auto simp: nonneg_values_def scale_values_def)

lemma nonneg_divide_values: "0 < t \<Longrightarrow> nonneg_values d \<Longrightarrow> nonneg_values (divide_values t d)"
  by (auto simp: nonneg_values_def divide_values_def)

lemma nonneg_update: "0 \<le> v \<Longrightarrow> nonneg_values d \<Longrightarrow> nonneg_values (AList.update k v d)"
  by (auto simp: nonneg_values_def dest!: set_update_cases)

lemma nonneg_fold_delete: "nonneg_values d \<Longrightarrow> nonneg_values (fold AList.delete ks d)"
proof (induction ks arbitrary: d)
  case Nil
  then show ?case by simp
next
  case (Cons k ks)
  have "set (AList.delete k d) \<subseteq> set d"
    by (auto simp: AList.delete_eq)
  then have "nonneg_values (AList.delete k d)"
    using Cons.prems by (auto simp: nonneg_values_def)
  then show ?case using Cons.IH by simp
qed

lemma nonneg_base_table: "nonneg_values (base_table he hp)"
proof -
  have tables: "nonneg_values WEIGHTS_WITH_EMBEDDINGS" "nonneg_values WEIGHTS_WITHOUT_EMBEDDINGS"
    by (simp_all add: nonneg_values_def WEIGHTS_WITH_EMBEDDINGS_def WEIGHTS_WITHOUT_EMBEDDINGS_def)
  show ?thesis
    by (cases he; cases hp)
       (simp_all add: base_table_def tables nonneg_update nonneg_scale_values)
qed

lemma nonneg_dropped_table: "nonneg_values (dropped_table he hp both hooks)"
  unfolding dropped_table_def by (rule nonneg_fold_delete [OF nonneg_base_table])

lemma nonneg_get_weights: "nonneg_values (get_weights he hp ka kb)"
  unfolding get_weights_dropped Let_def
  by (simp add: nonneg_divide_values nonneg_dropped_table dropped_table_positive)

lemma get_or_nonneg: "nonneg_values d \<Longrightarrow> 0 \<le> get_or d k 0"
  using get_or_cases [of d k 0] by (force simp: nonneg_values_def)

lemma sum_values_as_sum:
  assumes "distinct (map fst d)"
  shows "sum_values d = (\<Sum>k \<in> set (map fst d). get_or d k 0)"
proof -
  have "sum_values d = sum_list (map (\<lambda>k. get_or d k 0) (map fst d))"
    unfolding sum_values_def using assms
    by (induction d) (auto simp: get_or_def rev_image_eqI intro!: arg_cong [where f = sum_list])
  also have "\<dots> = (\<Sum>k \<in> set (map fst d). get_or d k 0)"
    using assms by (rule sum_list_distinct_conv_sum_set)
  finally show ?thesis .
qed

lemma weighted_sum_unit:
  assumes sigs: "distinct (map fst sigs)" "\<forall>kv \<in> set sigs. unit_interval (snd kv)"
    and ws: "distinct (map fst weights)" "nonneg_values weights" "sum_values weights = 1"
  shows "unit_interval (weighted_sum weights sigs)"
proof -
  let ?W = "\<lambda>k. get_or weights k 0"
  have W0: "0 \<le> ?W k" for k using ws(2) by (rule get_or_nonneg)
  have lower: "0 \<le> weighted_sum weights sigs"
    unfolding weighted_sum_def using sigs(2) W0
    by (intro sum_list_nonneg) (auto simp: unit_interval_def)
  have "weighted_sum weights sigs \<le> sum_list (map (\<lambda>kv. ?W (fst kv)) sigs)"
    unfolding weighted_sum_def using sigs(2) W0
    by (intro sum_list_mono) (auto simp: unit_interval_def mult_left_le)
  also have "\<dots> = sum_list (map ?W (map fst sigs))"
    by (simp add: o_def)
  also have "\<dots> = (\<Sum>k \<in> set (map fst sigs). ?W k)"
    using sigs(1) by (rule sum_list_distinct_conv_sum_set)
  also have "\<dots> \<le> (\<Sum>k \<in> set (map fst sigs) \<union> set (map fst weights). ?W k)"
    using W0 by (intro sum_mono2) auto
  also have "\<dots> = (\<Sum>k \<in> set (map fst weights). ?W k)"
  proof (rule sum.mono_neutral_right)
    show "\<forall>k \<in> set (map fst sigs) \<union> set (map fst weights) - set (map fst weights). ?W k = 0"
      by (auto simp: get_or_def map_of_eq_None_iff [THEN iffD2] split: option.splits)
  qed auto
  also have "\<dots> = sum_values weights"
    using ws(1) by (rule sum_values_as_sum [symmetric])
  finally show ?thesis
    using lower ws(3) by (simp add: unit_interval_def)
qed

lemma pair_score_unit: "unit_interval (pair_score ubi arts a b)"
  unfolding pair_score_def pair_signals_def pair_weights_def
  by (intro weighted_sum_unit distinct_keys_compute_signals compute_signals_unit
      distinct_keys_get_weights nonneg_get_weights get_weights_total)


lemma score_pair_unit:
  assumes "score_pair ubi arts t a b = Some p"
  shows "unit_interval (score p)" and "\<forall>kv \<in> set (signals p). unit_interval (snd kv)"
proof -
  from assms have p: "score p = py_round (pair_score ubi arts a b) 4"
    "signals p = map (\<lambda>(k, v). (k, py_round v 4)) (pair_signals ubi arts a b)"
    by (auto simp: score_pair_def Let_def split: if_splits)
  show "unit_interval (score p)"
    unfolding p by (rule py_round_unit [OF pair_score_unit])
  have "unit_interval (snd kv)" if "kv \<in> set (pair_signals ubi arts a b)" for kv
    using compute_signals_unit that unfolding pair_signals_def by blast
  then show "\<forall>kv \<in> set (signals p). unit_interval (snd kv)"
    unfolding p by (auto intro!: py_round_unit)
qed

lemma in_inner_loop:
  "p \<in> set (inner_loop ubi arts t a bs acc) \<Longrightarrow>
     p \<in> set acc \<or> (\<exists>b \<in> set bs. score_pair ubi arts t a b = Some p)"
proof (induction bs arbitrary: acc)
  case Nil
  then show ?case by simp
next
  case (Cons b bs)
  from Cons.IH [OF Cons.prems [simplified]] show ?case
    by (auto split: option.splits)
qed

lemma in_outer_loop:
  "p \<in> set (outer_loop ubi arts t ids acc) \<Longrightarrow>
     p \<in> set acc \<or> (\<exists>a b. score_pair ubi arts t a b = Some p)"
proof (induction ids arbitrary: acc)
  case Nil
  then show ?case by simp
next
  case (Cons a ids)
  from Cons.IH [OF Cons.prems [simplified]] show ?case
    by (auto dest!: in_inner_loop)
qed

lemma compute_scores_elem:
  assumes "p \<in> set (compute_scores units arts t)"
  shows "\<exists>a b. score_pair (build_units_by_id units []) arts t a b = Some p"
  using assms in_outer_loop [of p "build_units_by_id units []" arts t _ "[]"]
  by (auto simp: compute_scores_def Let_def)

lemma compute_scores_unit:
  assumes "p \<in> set (compute_scores units arts t)"
  shows "unit_interval (score p)" and "\<forall>kv \<in> set (signals p). unit_interval (snd kv)"
  using compute_scores_elem [OF assms] score_pair_unit by blast+

lemma mean_unit:
  assumes "\<forall>w \<in> set ws. unit_interval w"
  shows "unit_interval (if ws \<noteq> [] then sum_list ws / real (length ws) else 0)"
proof (cases "ws = []")
  case True
  then show ?thesis by simp
next
  case False
  have "0 \<le> sum_list ws"
    using assms by (intro sum_list_nonneg) (auto simp: unit_interval_def)
  moreover have "sum_list (map (\<lambda>w. w) ws) \<le> sum_list (map (\<lambda>w. 1) ws)"
    using assms by (intro sum_list_mono) (auto simp: unit_interval_def)
  then have "sum_list ws \<le> real (length ws)"
    by (simp add: sum_list_triv)
  ultimately show ?thesis
    using False by (simp add: unit_interval_def divide_le_eq)
qed

lemma overlap_inner_inv:
  assumes "0 \<le> fst st" "fst st \<le> real (snd st)"
  shows "0 \<le> fst (overlap_inner a bs st) \<and> fst (overlap_inner a bs st) \<le> real (snd (overlap_inner a bs st))"
  using assms
proof (induction bs arbitrary: st)
  case Nil
  then show ?case by simp
next
  case (Cons b bs)
  obtain s n where st: "st = (s, n)" by (cases st)
  define st' where "st' = (if a \<union> b \<noteq> {}
        then (s + real (card (a \<inter> b)) / real (card (a \<union> b)), n + 1) else (s, n))"
  have step: "overlap_inner a (b # bs) st = overlap_inner a bs st'"
    by (simp add: st st'_def)
  have "0 \<le> fst st' \<and> fst st' \<le> real (snd st')"
  proof (cases "a \<union> b \<noteq> {}")
    case True
    have "unit_interval (jaccard_sim a b)" by (rule jaccard_sim_unit)
    moreover have "jaccard_sim a b = real (card (a \<inter> b)) / real (card (a \<union> b))"
      using True by (auto simp: jaccard_sim_def Let_def)
    ultimately have "0 \<le> real (card (a \<inter> b)) / real (card (a \<union> b))"
      "real (card (a \<inter> b)) / real (card (a \<union> b)) \<le> 1"
      by (simp_all add: unit_interval_def)
    then show ?thesis
      using True st Cons.prems by (simp add: st'_def)
  next
    case False
    then show ?thesis
      using st Cons.prems by (simp add: st'_def)
  qed
  then show ?case
    unfolding step by (intro Cons.IH) simp_all
qed

lemma overlap_outer_inv:
  assumes "0 \<le> fst st" "fst st \<le> real (snd st)"
  shows "0 \<le> fst (overlap_outer xs st) \<and> fst (overlap_outer xs st) \<le> real (snd (overlap_outer xs st))"
  using assms
proof (induction xs arbitrary: st)
  case Nil
  then show ?case by simp
next
  case (Cons a xs)
  have "0 \<le> fst (overlap_inner a xs st) \<and> fst (overlap_inner a xs st) \<le> real (snd (overlap_inner a xs st))"
    using Cons.prems by (rule overlap_inner_inv)
  then show ?case
    using Cons.IH by simp
qed

lemma enrich_cluster_unit:
  assumes "\<forall>p \<in> set sp. unit_interval (score p)"
  shows "unit_interval (avgSimilarity (enrich_cluster mems sp ubi))"
    and "unit_interval (consumerOverlap (enrich_cluster mems sp ubi))"
proof -
  have "\<forall>w \<in> set (map score (filter (intra mems) sp)). unit_interval w"
    using assms by auto
  from py_round_unit [OF mean_unit [OF this]]
  show "unit_interval (avgSimilarity (enrich_cluster mems sp ubi))"
    by (simp add: enrich_cluster_def Let_def)
  let ?ov = "overlap_outer (map (consumer_ids_of ubi) (sorted_list_of_set mems)) (0, 0)"
  have inv: "0 \<le> fst ?ov \<and> fst ?ov \<le> real (snd ?ov)"
    by (rule overlap_outer_inv) simp_all
  have "unit_interval (if 0 < snd ?ov then fst ?ov / real (snd ?ov) else fst ?ov)"
    using inv by (auto simp: unit_interval_def divide_le_eq)
  from py_round_unit [OF this]
  show "unit_interval (consumerOverlap (enrich_cluster mems sp ubi))"
    by (simp add: enrich_cluster_def Let_def)
qed

text \<open>
  C6. Every pair in the similarity matrix has a score in \<open>[0, 1]\<close> and every signal
  value it records lies in \<open>[0, 1]\<close>, whatever the artifacts are; and every cluster
  computed from that matrix has \<open>avgSimilarity\<close> and \<open>consumerOverlap\<close> in \<open>[0, 1]\<close>.
\<close>

theorem scores_and_clusters_bounded:
  "(\<forall>p \<in> set (compute_scores units arts threshold).
      0 \<le> score p \<and> score p \<le> 1 \<and> (\<forall>kv \<in> set (signals p). 0 \<le> snd kv \<and> snd kv \<le> 1))
   \<and> (\<forall>c \<in> set (compute_clusters components communities_of
                     (compute_scores units arts threshold) units cluster_threshold).
        0 \<le> avgSimilarity c \<and> avgSimilarity c \<le> 1
        \<and> 0 \<le> consumerOverlap c \<and> consumerOverlap c \<le> 1)"
proof (rule conjI; rule ballI)
  fix p
  assume p: "p \<in> set (compute_scores units arts threshold)"
  show "0 \<le> score p \<and> score p \<le> 1 \<and> (\<forall>kv \<in> set (signals p). 0 \<le> snd kv \<and> snd kv \<le> 1)"
    using compute_scores_unit [OF p] by (simp add: unit_interval_def)
next
  fix c
  assume c: "c \<in> set (compute_clusters components communities_of
                     (compute_scores units arts threshold) units cluster_threshold)"
  have sp: "\<forall>p \<in> set (compute_scores units arts threshold). unit_interval (score p)"
    using compute_scores_unit(1) by blast
  from c show "0 \<le> avgSimilarity c \<and> avgSimilarity c \<le> 1
        \<and> 0 \<le> consumerOverlap c \<and> consumerOverlap c \<le> 1"
  proof (rule compute_clusters_elem)
    fix community
    assume "avgSimilarity c = avgSimilarity (enrich_cluster community
             (compute_scores units arts threshold) (build_units_by_id units []))"
      and "consumerOverlap c = consumerOverlap (enrich_cluster community
             (compute_scores units arts threshold) (build_units_by_id units []))"
    then show ?thesis
      using enrich_cluster_unit [OF sp, of community "build_units_by_id units []"]
      by (simp add: unit_interval_def)
  qed
qed


theorem scores_and_clusters_bounded_witness:
  "compute_scores [unary_function ''a.ts::f'' ''a.ts'' None, unary_function ''b.ts::g'' ''b.ts'' None]
       (two_function_artifacts demo_digest ''a.ts::f'' ''b.ts::g'') (3 / 10) \<noteq> []
   \<and> score (hd (compute_scores
         [unary_function ''a.ts::f'' ''a.ts'' None, unary_function ''b.ts::g'' ''b.ts'' None]
         (two_function_artifacts demo_digest ''a.ts::f'' ''b.ts::g'') (3 / 10))) \<le> 1
   \<and> compute_clusters (\<lambda>G. [{''a.ts::f'', ''b.ts::g''}]) (\<lambda>G. None)
        (compute_scores
           [unary_function ''a.ts::f'' ''a.ts'' None, unary_function ''b.ts::g'' ''b.ts'' None]
           (two_function_artifacts demo_digest ''a.ts::f'' ''b.ts::g'') (3 / 10))
        [unary_function ''a.ts::f'' ''a.ts'' None, unary_function ''b.ts::g'' ''b.ts'' None] (3 / 10) \<noteq> []
   \<and> avgSimilarity (hd (compute_clusters (\<lambda>G. [{''a.ts::f'', ''b.ts::g''}]) (\<lambda>G. None)
        (compute_scores
           [unary_function ''a.ts::f'' ''a.ts'' None, unary_function ''b.ts::g'' ''b.ts'' None]
           (two_function_artifacts demo_digest ''a.ts::f'' ''b.ts::g'') (3 / 10))
        [unary_function ''a.ts::f'' ''a.ts'' None, unary_function ''b.ts::g'' ''b.ts'' None] (3 / 10))) \<le> 1"
proof -
  let ?U = "[unary_function ''a.ts::f'' ''a.ts'' None, unary_function ''b.ts::g'' ''b.ts'' None]"
  let ?A = "two_function_artifacts demo_digest ''a.ts::f'' ''b.ts::g''"
  let ?sp = "compute_scores ?U ?A (3 / 10)"
  let ?cs = "compute_clusters (\<lambda>G. [{''a.ts::f'', ''b.ts::g''}]) (\<lambda>G. None) ?sp ?U (3 / 10)"
  have sp: "?sp = [\<lparr>unitA = ''a.ts::f'', unitB = ''b.ts::g'', score = 3077 / 10000,
            signals = two_function_signals, dominantSignal = ''typeSignature''\<rparr>]"
    using two_functions_compute_scores [of "''a.ts::f''" "''b.ts::g''" "''a.ts''" "''b.ts''" demo_digest None None "3 / 10"]
      demo_digest_nonempty
    by simp
  then have sp_hd: "?sp \<noteq> []" "hd ?sp \<in> set ?sp" by simp_all
  have "length ?cs = 1"
    unfolding sp
    by (simp add: compute_clusters_def Let_def length_rank_clusters detect_communities_def)
  then have cs_hd: "?cs \<noteq> []" "hd ?cs \<in> set ?cs"
    by (cases ?cs; simp)+
  from scores_and_clusters_bounded [of ?U ?A "3 / 10" "\<lambda>G. [{''a.ts::f'', ''b.ts::g''}]" "\<lambda>G. None" "3 / 10"]
  have "score (hd ?sp) \<le> 1" "avgSimilarity (hd ?cs) \<le> 1"
    using sp_hd(2) cs_hd(2) by blast+
  with sp_hd(1) cs_hd(1) show ?thesis by blast
qed

section \<open>Symmetry of the scoring\<close>

lemma prod_at_commute: "prod_at a b k = prod_at b a k"
  by (simp add: prod_at_def mult.commute split: option.splits)

lemma dot_loop_acc:
  "dot_loop a b acc = acc + sum_list (map (\<lambda>(k, v). case map_of b k of None \<Rightarrow> 0 | Some w \<Rightarrow> v * w) a)"
  by (induction a arbitrary: acc) (auto split: option.splits)

lemma dot_loop_sum:
  assumes "distinct (map fst a)"
  shows "dot_loop a b 0 = (\<Sum>k \<in> set (map fst a). prod_at a b k)"
proof -
  have "sum_list (map (\<lambda>(k, v). case map_of b k of None \<Rightarrow> 0 | Some w \<Rightarrow> v * w) a)
      = sum_list (map (prod_at a b) (map fst a))"
    using assms
  proof (induction a)
    case Nil
    then show ?case by simp
  next
    case (Cons kv a)
    obtain k v where kv: "kv = (k, v)" by (cases kv)
    have fresh: "k \<notin> fst ` set a" using Cons.prems kv by simp
    have rest: "map (prod_at ((k, v) # a) b \<circ> fst) a = map (prod_at a b \<circ> fst) a"
      using fresh by (auto simp: prod_at_def)
    have first: "prod_at ((k, v) # a) b k = (case map_of b k of None \<Rightarrow> 0 | Some w \<Rightarrow> v * w)"
      by (simp add: prod_at_def)
    show ?case
      using Cons kv by (simp add: rest first)
  qed
  also have "\<dots> = (\<Sum>k \<in> set (map fst a). prod_at a b k)"
    using assms by (rule sum_list_distinct_conv_sum_set)
  finally show ?thesis
    by (simp add: dot_loop_acc)
qed

lemma dot_loop_commute:
  assumes "distinct (map fst a)" "distinct (map fst b)"
  shows "dot_loop a b 0 = dot_loop b a 0"
proof -
  have zero_a: "prod_at a b k = 0" if "k \<notin> set (map fst a)" for k
    using that by (simp add: prod_at_def map_of_eq_None_iff [THEN iffD2])
  have zero_b: "prod_at a b k = 0" if "k \<notin> set (map fst b)" for k
    using that by (simp add: prod_at_def map_of_eq_None_iff [THEN iffD2] split: option.splits)
  have "dot_loop a b 0 = (\<Sum>k \<in> set (map fst a). prod_at a b k)"
    using assms(1) by (rule dot_loop_sum)
  also have "\<dots> = (\<Sum>k \<in> set (map fst a) \<union> set (map fst b). prod_at a b k)"
    using zero_a by (intro sum.mono_neutral_left) auto
  also have "\<dots> = (\<Sum>k \<in> set (map fst b). prod_at a b k)"
    using zero_b by (intro sum.mono_neutral_right) auto
  also have "\<dots> = (\<Sum>k \<in> set (map fst b). prod_at b a k)"
    by (simp add: prod_at_commute [of a b])
  also have "\<dots> = dot_loop b a 0"
    using assms(2) by (rule dot_loop_sum [symmetric])
  finally show ?thesis .
qed

lemma dot_commute:
  assumes "distinct (map fst a)" "distinct (map fst b)"
  shows "dot a b = dot b a"
  using dot_loop_commute [OF assms] by (simp add: dot_def)

lemma cosine_sim_commute:
  assumes "distinct (map fst a)" "distinct (map fst b)"
  shows "cosine_sim a b = cosine_sim b a"
  using dot_commute [OF assms] by (simp add: cosine_sim_def Let_def disj_commute mult.commute)

lemma distinct_enumerate_vec: "distinct (map fst (enumerate_vec xs))"
  by (simp add: enumerate_vec_def)

lemma distinct_hook_vec: "distinct (map fst (hook_vec hp))"
proof -
  have "map fst (hook_vec hp) = map fst (filter (\<lambda>(i, v). v \<noteq> 0) (zip [0..<length hp] hp))"
    by (simp add: hook_vec_def o_def case_prod_unfold)
  moreover have "distinct (map fst (zip [0..<length hp] hp))" by simp
  ultimately show ?thesis
    by (simp add: distinct_map_filter)
qed

lemma jaccard_sim_commute: "jaccard_sim a b = jaccard_sim b a"
  by (simp add: jaccard_sim_def Let_def Int_commute Un_commute conj_commute)

lemma mismatches_zip_commute:
  "length (filter (\<lambda>(x, y). x \<noteq> y) (zip a b)) = length (filter (\<lambda>(x, y). x \<noteq> y) (zip b a))"
proof (induction a arbitrary: b)
  case Nil
  then show ?case by simp
next
  case (Cons x xs)
  then show ?case by (cases b) auto
qed

lemma normalized_hamming_commute: "normalized_hamming a b = normalized_hamming b a"
proof -
  have "(\<lambda>i. a ! i \<noteq> b ! i) = (\<lambda>i. b ! i \<noteq> a ! i)" by auto
  then show ?thesis
    using mismatches_zip_commute [of a b]
    by (auto simp: normalized_hamming_def Let_def min.commute max.commute)
qed

lemma sum_zip_commute:
  assumes "\<And>x y. (x, y) \<in> set (zip xs ys) \<Longrightarrow> f x y = (g y x :: nat)"
  shows "sum_list (map (\<lambda>(x, y). f x y) (zip xs ys)) = sum_list (map (\<lambda>(y, x). g y x) (zip ys xs))"
  using assms
proof (induction xs arbitrary: ys)
  case Nil
  then show ?case by simp
next
  case (Cons x xs)
  then show ?case by (cases ys) auto
qed

lemma count_matching_nodes_commute: "count_matching_nodes a b = count_matching_nodes b a"
proof (induction a b rule: count_matching_nodes.induct)
  case (1 tag_a cs_a tag_b cs_b)
  have "sum_list (map (\<lambda>(ca, cb). count_matching_nodes ca cb) (zip (dict_children cs_a) (dict_children cs_b)))
      = sum_list (map (\<lambda>(cb, ca). count_matching_nodes cb ca) (zip (dict_children cs_b) (dict_children cs_a)))"
    by (rule sum_zip_commute) (rule "1.IH", simp_all)
  then show ?case by auto
qed

lemma tree_edit_commute: "tree_edit_distance_normalized ta tb = tree_edit_distance_normalized tb ta"
  by (cases ta; cases tb)
     (simp_all add: tree_edit_distance_normalized_def Let_def add.commute count_matching_nodes_commute)


lemma sig_semantic_commute: "sig_semantic a b e = sig_semantic b a e"
  by (auto simp: sig_semantic_def cosine_sim_commute [OF distinct_enumerate_vec distinct_enumerate_vec]
      split: option.splits)

lemma sig_type_signature_commute: "sig_type_signature a b t = sig_type_signature b a t"
  by (auto simp: sig_type_signature_def split: option.splits)

lemma sig_jsx_structure_commute: "sig_jsx_structure a b f u = sig_jsx_structure b a f u"
  by (auto simp: sig_jsx_structure_def Let_def tree_edit_commute truthy_def split: option.splits)

lemma sig_hook_profile_commute: "sig_hook_profile a b f = sig_hook_profile b a f"
  by (auto simp: sig_hook_profile_def Let_def cosine_sim_commute [OF distinct_hook_vec distinct_hook_vec])

lemma sig_data_access_commute: "sig_data_access a b f = sig_data_access b a f"
  by (auto simp: sig_data_access_def Let_def jaccard_sim_commute)

lemma sig_behavior_commute: "sig_behavior a b f = sig_behavior b a f"
  by (auto simp: sig_behavior_def Let_def normalized_hamming_commute)

lemma sig_call_sequence_commute: "sig_call_sequence a b g = sig_call_sequence b a g"
proof -
  let ?sa = "field_or g a sequenceHashes []" and ?sb = "field_or g b sequenceHashes []"
  have "(\<exists>ctx \<in> set (map fst ?sa) \<inter> set (map fst ?sb). map_of ?sa ctx = map_of ?sb ctx)
      = (\<exists>ctx \<in> set (map fst ?sb) \<inter> set (map fst ?sa). map_of ?sb ctx = map_of ?sa ctx)"
    unfolding Int_commute [of "set (map fst ?sb)"] by (metis (no_types))
  then show ?thesis
    unfolding sig_call_sequence_def Let_def
    by (simp add: Int_commute max.commute)
qed

lemma sig_consumer_set_commute: "sig_consumer_set a b u = sig_consumer_set b a u"
  by (simp add: sig_consumer_set_def Let_def jaccard_sim_commute Int_commute conj_commute)

lemma sig_neighborhood_commute: "sig_neighborhood a b d = sig_neighborhood b a d"
  by (auto simp: sig_neighborhood_def Let_def truthy_def split: option.splits)

lemma sig_structural_pattern_commute: "sig_structural_pattern a b p = sig_structural_pattern b a p"
  by (auto simp: sig_structural_pattern_def Let_def jaccard_sim_commute)

lemma get_weights_commute: "get_weights he hp ka kb = get_weights he hp kb ka"
  unfolding get_weights_dropped by (simp add: conj_commute)

lemma pair_weights_commute: "pair_weights ubi arts a b = pair_weights ubi arts b a"
  unfolding pair_weights_def by (rule get_weights_commute)

lemma compute_signals_commute:
  assumes "sparse_vectors_ok arts a" "sparse_vectors_ok arts b"
  shows "compute_signals w a b ubi arts = compute_signals w b a ubi arts"
proof -
  have im: "sig_imports a b (fps arts) = sig_imports b a (fps arts)"
    unfolding sig_imports_def using assms
    by (intro cosine_sim_commute) (simp_all add: sparse_vectors_ok_def)
  have cs: "sig_callee_set a b (cg arts) = sig_callee_set b a (cg arts)"
    unfolding sig_callee_set_def using assms
    by (intro cosine_sim_commute) (simp_all add: sparse_vectors_ok_def)
  have co: "sig_cooccurrence a b (dc arts) = sig_cooccurrence b a (dc arts)"
    unfolding sig_cooccurrence_def using assms
    by (intro cosine_sim_commute) (simp_all add: sparse_vectors_ok_def)
  show ?thesis
    unfolding compute_signals_def Let_def im cs co
      sig_semantic_commute [of a b] sig_type_signature_commute [of a b]
      sig_jsx_structure_commute [of a b] sig_hook_profile_commute [of a b]
      sig_data_access_commute [of a b] sig_behavior_commute [of a b]
      sig_call_sequence_commute [of a b] sig_consumer_set_commute [of a b]
      sig_neighborhood_commute [of a b] sig_structural_pattern_commute [of a b]
    by (rule refl)
qed

lemma pair_signals_commute:
  assumes "sparse_vectors_ok arts a" "sparse_vectors_ok arts b"
  shows "pair_signals ubi arts a b = pair_signals ubi arts b a"
  unfolding pair_signals_def pair_weights_commute [of ubi arts a b]
  by (rule compute_signals_commute [OF assms])

lemma pair_score_commute:
  assumes "sparse_vectors_ok arts a" "sparse_vectors_ok arts b"
  shows "pair_score ubi arts a b = pair_score ubi arts b a"
  unfolding pair_score_def pair_signals_commute [OF assms] pair_weights_commute [of ubi arts a b]
  by (rule refl)

lemma is_comparable_commute: "is_comparable ka kb = is_comparable kb ka"
  by (auto simp: is_comparable_def insert_commute)

text \<open>The sparse vectors that the stages build are dicts.\<close>

lemma distinct_import_constellation_loop:
  "distinct (map fst vec) \<Longrightarrow> distinct (map fst (import_constellation_loop imps idf vec))"
  by (induction imps arbitrary: vec) (auto simp: Let_def distinct_update split: option.splits)

lemma distinct_callee_set_vector_loop:
  "distinct (map fst vec) \<Longrightarrow> distinct (map fst (callee_set_vector_loop cs idf vec))"
  by (induction cs arbitrary: vec) (auto simp: Let_def distinct_update split: option.splits)

lemma distinct_cooc_list_loop:
  "distinct (map fst vec) \<Longrightarrow> distinct (map fst (cooc_list_loop es vec))"
  by (induction es vec rule: cooc_list_loop.induct) (auto simp: Let_def distinct_update)

lemma distinct_cooc_dict_loop:
  "distinct (map fst vec) \<Longrightarrow> distinct (map fst (cooc_dict_loop es vec))"
  by (induction es vec rule: cooc_dict_loop.induct) (auto simp: distinct_update)

lemma distinct_cooccurrence_vector: "distinct (map fst (cooccurrence_vector u))"
  by (simp add: cooccurrence_vector_def distinct_cooc_list_loop distinct_cooc_dict_loop
      split: cooccurrences.splits)

lemma fingerprints_loop_dicts:
  assumes "\<forall>kv \<in> set res. distinct (map fst (importConstellation (snd kv)))"
  shows "\<forall>kv \<in> set (fingerprints_loop H idf units res). distinct (map fst (importConstellation (snd kv)))"
  using assms
proof (induction units arbitrary: res)
  case Nil
  then show ?case by simp
next
  case (Cons u us)
  show ?case
  proof (cases "unit_id u = []")
    case True
    then show ?thesis using Cons by simp
  next
    case False
    have "distinct (map fst (import_constellation u idf))"
      by (simp add: import_constellation_def distinct_import_constellation_loop)
    then show ?thesis
      using False Cons.prems
      by (simp del: fingerprints_loop.simps add: fingerprints_loop.simps(2) [of H idf u us res])
         (rule Cons.IH, auto dest!: set_update_cases)
  qed
qed

lemma call_vectors_loop_dicts:
  assumes "\<forall>kv \<in> set res. distinct (map fst (calleeSetVector (snd kv)))"
  shows "\<forall>kv \<in> set (call_vectors_loop H idf units res). distinct (map fst (calleeSetVector (snd kv)))"
  using assms
proof (induction units arbitrary: res)
  case Nil
  then show ?case by simp
next
  case (Cons u us)
  show ?case
  proof (cases "unit_id u = []")
    case True
    then show ?thesis using Cons by simp
  next
    case False
    have "distinct (map fst (callee_set_vector u idf))"
      by (simp add: callee_set_vector_def distinct_callee_set_vector_loop)
    then show ?thesis
      using False Cons.prems
      by (simp del: call_vectors_loop.simps add: call_vectors_loop.simps(2) [of H idf u us res])
         (rule Cons.IH, auto dest!: set_update_cases)
  qed
qed

lemma dep_context_loop_dicts:
  assumes "dep_context_loop H g units res = Inr dcx"
    and "\<forall>kv \<in> set res. distinct (map fst (cooccurrenceVector (snd kv)))"
  shows "\<forall>kv \<in> set dcx. distinct (map fst (cooccurrenceVector (snd kv)))"
  using assms
proof (induction units arbitrary: res)
  case Nil
  then show ?case by simp
next
  case (Cons u us)
  show ?case
  proof (cases "unit_id u = []")
    case True
    then show ?thesis using Cons by simp
  next
    case False
    then obtain cp where cp: "consumer_profile u = Inr cp"
      using Cons.prems(1) by (cases "consumer_profile u") auto
    let ?res = "AList.update (unit_id u)
                     \<lparr>consumerProfile = cp,
                      cooccurrenceVector = cooccurrence_vector u,
                      neighborhoodHash_r1 = neighborhood_hash H (unit_id u) g 1,
                      neighborhoodHash_r2 = neighborhood_hash H (unit_id u) g 2\<rparr> res"
    have run: "dep_context_loop H g us ?res = Inr dcx"
      using Cons.prems(1) False cp by simp
    have "\<forall>kv \<in> set ?res. distinct (map fst (cooccurrenceVector (snd kv)))"
      using Cons.prems(2) distinct_cooccurrence_vector by (auto dest!: set_update_cases)
    from Cons.IH [OF run this] show ?thesis .
  qed
qed

lemma field_or_dict:
  assumes "\<forall>kv \<in> set art. distinct (map fst (field (snd kv)))"
  shows "distinct (map fst (field_or art uid field []))"
proof (cases "map_of art uid")
  case None
  then show ?thesis by (simp add: field_or_def)
next
  case (Some r)
  then have "(uid, r) \<in> set art" by (rule map_of_SomeD)
  then show ?thesis
    using assms Some by (auto simp: field_or_def)
qed

lemma pipeline_vectors_ok:
  assumes "compute_dep_context H units = Inr dcx"
  shows "sparse_vectors_ok
           \<lparr>fps = compute_fingerprints H units, typesigs = ts, cg = compute_call_vectors H units,
            dc = dcx, embeddings = emb, structural_patterns = pats\<rparr> uid"
proof -
  have "\<forall>kv \<in> set (compute_fingerprints H units). distinct (map fst (importConstellation (snd kv)))"
    unfolding compute_fingerprints_def by (rule fingerprints_loop_dicts) simp
  moreover have "\<forall>kv \<in> set (compute_call_vectors H units). distinct (map fst (calleeSetVector (snd kv)))"
    unfolding compute_call_vectors_def by (rule call_vectors_loop_dicts) simp
  moreover have "\<forall>kv \<in> set dcx. distinct (map fst (cooccurrenceVector (snd kv)))"
    using assms unfolding compute_dep_context_def by (rule dep_context_loop_dicts) simp
  ultimately show ?thesis
    by (simp add: sparse_vectors_ok_def field_or_dict)
qed

text \<open>
  C5. Scoring is symmetric: for all artifacts and every two unit ids, scoring the pair
  as (A, B) and as (B, A) gives the same score and the same dominant signal (indeed the
  same signals), and the pair is skipped or emitted alike. The sparse vectors of the two
  units are dicts; those that the stages compute are (\<open>pipeline_vectors_ok\<close>). Sums of
  floats are exact here, so the order of the terms of a dot product does not matter.
\<close>

theorem scoring_symmetric:
  assumes "sparse_vectors_ok arts uid_a" and "sparse_vectors_ok arts uid_b"
  shows "pair_score units_by_id arts uid_a uid_b = pair_score units_by_id arts uid_b uid_a
       \<and> dominant (pair_signals units_by_id arts uid_a uid_b)
           = dominant (pair_signals units_by_id arts uid_b uid_a)
       \<and> map_option (\<lambda>p. (score p, signals p, dominantSignal p))
            (score_pair units_by_id arts threshold uid_a uid_b)
           = map_option (\<lambda>p. (score p, signals p, dominantSignal p))
               (score_pair units_by_id arts threshold uid_b uid_a)"
proof (intro conjI)
  show sc: "pair_score units_by_id arts uid_a uid_b = pair_score units_by_id arts uid_b uid_a"
    by (rule pair_score_commute [OF assms])
  have sg: "pair_signals units_by_id arts uid_a uid_b = pair_signals units_by_id arts uid_b uid_a"
    by (rule pair_signals_commute [OF assms])
  then show "dominant (pair_signals units_by_id arts uid_a uid_b)
           = dominant (pair_signals units_by_id arts uid_b uid_a)"
    by simp
  have cmp: "is_comparable (field_or units_by_id uid_a get_kind []) (field_or units_by_id uid_b get_kind [])
      = is_comparable (field_or units_by_id uid_b get_kind []) (field_or units_by_id uid_a get_kind [])"
    by (rule is_comparable_commute)
  show "map_option (\<lambda>p. (score p, signals p, dominantSignal p))
            (score_pair units_by_id arts threshold uid_a uid_b)
           = map_option (\<lambda>p. (score p, signals p, dominantSignal p))
               (score_pair units_by_id arts threshold uid_b uid_a)"
    unfolding score_pair_def Let_def sc sg cmp
    by auto
qed

theorem scoring_symmetric_witness:
  "sparse_vectors_ok import_example ''a.ts::f'' \<and> sparse_vectors_ok import_example ''b.ts::g''
   \<and> pair_score [] import_example ''a.ts::f'' ''b.ts::g'' = pair_score [] import_example ''b.ts::g'' ''a.ts::f''
   \<and> dominant (pair_signals [] import_example ''a.ts::f'' ''b.ts::g'')
       = dominant (pair_signals [] import_example ''b.ts::g'' ''a.ts::f'')"
proof -
  have ok: "sparse_vectors_ok import_example ''a.ts::f''" "sparse_vectors_ok import_example ''b.ts::g''"
    by (simp_all add: sparse_vectors_ok_def import_example_def field_or_def plain_fingerprint_def)
  from scoring_symmetric [OF ok, of "[]" 0] ok show ?thesis
    by blast
qed

end
